theory Spec2Isabelle
  imports Complex_Main "HOL-Library.AList" "HOL-Library.Sublist"
begin

section \<open>Input coercion and validation of graphql-js\<close>

text \<open>
  A shallow embedding of \<^verbatim>\<open>coerceInputValue\<close>, \<^verbatim>\<open>validateInputValue\<close>,
  \<^verbatim>\<open>coerceInputLiteral\<close> and \<^verbatim>\<open>astFromValue\<close>. JavaScript values, literal nodes and
  input types are datatypes; \<^verbatim>\<open>undefined\<close> is a value of its own, since the code
  returns it as "no value" and tests for it with \<^verbatim>\<open>===\<close>. The hidden field
  \<^verbatim>\<open>_coercedDefaultValue\<close> of a field descriptor lives in an explicit store that the
  coercion functions thread through. Exceptions are the left summand of a sum type.
\<close>

subsection \<open>JavaScript values\<close>

text \<open>
  A finite number is modelled by the real it denotes; \<^verbatim>\<open>String(value)\<close> is a parameter
  of \<^verbatim>\<open>astFromValue\<close>. \<open>Array\<close> is an array, the one kind of iterable object of the
  model, with the list of its items, \<open>Object\<close> for every other object, with its own enumerable
  properties in enumeration order (keys are distinct in a JavaScript object), \<open>Opaque\<close>
  for the values whose \<^verbatim>\<open>typeof\<close> is none of object, boolean, number, string,
  undefined (symbols, functions, bigints). A property read \<^verbatim>\<open>value[key]\<close> finds an own
  property or else what the prototype chain holds for the key; an \<open>Array\<close> is an array
  and inherits from \<^verbatim>\<open>Array.prototype\<close>, an \<open>Object\<close> inherits from
  \<^verbatim>\<open>Object.prototype\<close>, and the members of these two built-in objects are
  parameters of the model (subsection "The environment").
\<close>

datatype jsnum = Finite real | NaN | PosInfinity | NegInfinity

datatype jsval =
    Undefined
  | Null
  | Boolean bool
  | Number jsnum
  | Str string
  | Array "jsval list"
  | Object "(string \<times> jsval) list"
  | Opaque nat

text \<open>\<^verbatim>\<open>value == null\<close>\<close>

fun isNullish :: "jsval \<Rightarrow> bool" where
  "isNullish Undefined = True"
| "isNullish Null = True"
| "isNullish _ = False"

text \<open>
  Modelled from the spec: \<^verbatim>\<open>isIterableObject\<close> and \<^verbatim>\<open>isObjectLike\<close> of \<^verbatim>\<open>jsutils\<close> are
  not among the sources. The first holds of "a finite or infinite iterable (but not
  itself treated as a scalar)", so not of a string; the second of a "keyed/structured
  value", which in JavaScript is every object, an array too.
\<close>

fun isIterableObject :: "jsval \<Rightarrow> bool" where
  "isIterableObject (Array _) = True"
| "isIterableObject _ = False"

fun isObjectLike :: "jsval \<Rightarrow> bool" where
  "isObjectLike (Array _) = True"
| "isObjectLike (Object _) = True"
| "isObjectLike _ = False"

text \<open>The items a \<^verbatim>\<open>for ... of\<close> loop visits.\<close>

fun items :: "jsval \<Rightarrow> jsval list" where
  "items (Array xs) = xs"
| "items _ = []"

fun decimal :: "nat \<Rightarrow> string" where
  "decimal n =
     (if n < 10 then [char_of (48 + n)]
      else decimal (n div 10) @ [char_of (48 + n mod 10)])"

text \<open>\<^verbatim>\<open>Object.keys(value)\<close>\<close>

fun ownKeys :: "jsval \<Rightarrow> string list" where
  "ownKeys (Object kvs) = map fst kvs"
| "ownKeys (Array xs) = map decimal [0..<length xs]"
| "ownKeys _ = []"

subsection \<open>Literal nodes, thrown values, variables\<close>

text \<open>
  The value nodes of the grammar; an object node holds its \<^verbatim>\<open>ObjectField\<close> nodes as
  pairs of \<^verbatim>\<open>name.value\<close> and \<^verbatim>\<open>value\<close>.
\<close>

datatype vnode =
    Variable string
  | NullValue
  | IntValue string
  | FloatValue string
  | StringValue string
  | BooleanValue bool
  | EnumValue string
  | ListValue "vnode list"
  | ObjectValue "(string \<times> vnode) list"

text \<open>
  What a \<^verbatim>\<open>throw\<close> carries: a \<^verbatim>\<open>GraphQLError\<close> (message, original error), or any
  other value, of which the code reads its truthiness and its \<^verbatim>\<open>message\<close>; a falsy
  thrown value counts as no original error.
\<close>

datatype thrown =
    GraphQLError (message: string) (originalError: "thrown option")
  | OtherError (truthy: bool) (omessage: string)

datatype type_error = TypeError jsval

text \<open>
  The variable mapping is an object of the caller: \<open>entries\<close> are its own properties,
  and \<open>inherited\<close> is what a read finds on its prototype chain for a name that is no
  own property (\<^verbatim>\<open>undefined\<close> for every name when the object has no prototype).
\<close>

record variables =
  entries :: "string \<Rightarrow> jsval option"
  inherited :: "string \<Rightarrow> jsval"

text \<open>\<^verbatim>\<open>variables[name]\<close>\<close>

definition getVar :: "variables \<Rightarrow> string \<Rightarrow> jsval" where
  "getVar vs name = (case entries vs name of None \<Rightarrow> inherited vs name | Some v \<Rightarrow> v)"

subsection \<open>Input types\<close>

text \<open>
  The four shapes of an input type. A leaf type is given by what the code reads of it:
  its name, whether it is an enum type or the \<^verbatim>\<open>ID\<close> scalar, and its two parse
  operations, functions of their arguments which either throw or return a value
  (possibly \<^verbatim>\<open>undefined\<close>). An
  input-object type holds \<^verbatim>\<open>Object.values(type.getFields())\<close>; \<open>fid\<close> is the identity
  of the descriptor object, the address of its \<^verbatim>\<open>_coercedDefaultValue\<close>, and
  \<open>fdefault\<close> is \<^verbatim>\<open>undefined\<close> when the field declares no default.
\<close>

datatype leafkind = EnumType | IDScalar | OtherScalar

record leaf =
  lname :: string
  lkind :: leafkind
  parseValue :: "jsval \<Rightarrow> thrown + jsval"
  parseLiteral :: "vnode \<Rightarrow> variables option \<Rightarrow> thrown + jsval"

datatype gtype =
    NonNull gtype
  | ListT gtype
  | InputObject string "field list"
  | LeafT leaf
and field = Field (fid: nat) (fname: string) (ftype: gtype) (fdefault: jsval)

fun isNonNullType :: "gtype \<Rightarrow> bool" where
  "isNonNullType (NonNull _) = True"
| "isNonNullType _ = False"

text \<open>\<^verbatim>\<open>fieldDefs[fieldName]\<close> on the map \<^verbatim>\<open>type.getFields()\<close>, keyed by field name.\<close>

definition fieldDef :: "field list \<Rightarrow> string \<Rightarrow> field option" where
  "fieldDef fieldDefs k = find (\<lambda>f. fname f = k) fieldDefs"

text \<open>
  Modelled from the spec: \<^verbatim>\<open>isRequiredInputField\<close> of \<^verbatim>\<open>type/definition\<close> is not
  among the sources; a required field is "Non-Null and no default".
\<close>

definition isRequiredInputField :: "field \<Rightarrow> bool" where
  "isRequiredInputField f = (isNonNullType (ftype f) \<and> fdefault f = Undefined)"

text \<open>
  Modelled from the spec: \<^verbatim>\<open>getNamedType\<close> of \<^verbatim>\<open>type/definition\<close> is not among the
  sources; it returns the named type under every List and Non-Null wrapper (the type
  hint "supplies nested-type hints", and the tests of \<^verbatim>\<open>astFromValue\<close> turn a list of
  names against a list of an enum type into enum literals).
\<close>

fun getNamedType :: "gtype \<Rightarrow> gtype" where
  "getNamedType (NonNull ofType) = getNamedType ofType"
| "getNamedType (ListT ofType) = getNamedType ofType"
| "getNamedType t = t"

subsection \<open>The environment\<close>

text \<open>
  Modelled from the spec: \<^verbatim>\<open>jsutils/Path\<close> is not among the sources; a path is "an
  immutable, append-only linked structure recording the chain of field names / list
  indices (and enclosing type names, for object-field segments)", "converted to an
  ordered array (root-to-leaf) on demand". \<open>NoPath\<close> is \<^verbatim>\<open>undefined\<close>.
\<close>

datatype pathkey = Key string | Index nat

datatype path = NoPath | Path path pathkey "string option"

definition addPath :: "path \<Rightarrow> pathkey \<Rightarrow> string option \<Rightarrow> path" where
  "addPath prev key typename = Path prev key typename"

fun pathToArray :: "path \<Rightarrow> pathkey list" where
  "pathToArray NoPath = []"
| "pathToArray (Path prev key typename) = pathToArray prev @ [key]"

text \<open>
  What the code takes from outside the sources, as parameters of the model: the helpers
  of \<^verbatim>\<open>jsutils\<close> that only build message strings, and the two built-in prototype
  objects of the language. \<open>objectPrototype U k\<close> is what a read of the key \<open>k\<close> finds on
  \<^verbatim>\<open>Object.prototype\<close>, and \<open>arrayPrototype U k\<close> what it finds on the chain that begins
  at \<^verbatim>\<open>Array.prototype\<close>; both are \<^verbatim>\<open>undefined\<close> for a key that the chain does not hold.
\<close>

record env =
  inspectType :: "gtype \<Rightarrow> string"
  inspectValue :: "jsval \<Rightarrow> string"
  printPathArray :: "pathkey list \<Rightarrow> string"
  suggestionList :: "string \<Rightarrow> string list \<Rightarrow> string list"
  didYouMean :: "string list \<Rightarrow> string"
  objectPrototype :: "string \<Rightarrow> jsval"
  arrayPrototype :: "string \<Rightarrow> jsval"

text \<open>
  \<^verbatim>\<open>value[key]\<close> on an object-like value: the own property when there is one (the
  items and the length of an array), and else the member that the value inherits.
\<close>

fun getProp :: "env \<Rightarrow> jsval \<Rightarrow> string \<Rightarrow> jsval" where
  "getProp U (Object kvs) k =
     (case map_of kvs k of None \<Rightarrow> objectPrototype U k | Some v \<Rightarrow> v)"
| "getProp U (Array xs) k =
     (if k = ''length'' then Number (Finite (real (length xs)))
      else (case filter (\<lambda>i. decimal i = k) [0..<length xs] of
              [] \<Rightarrow> arrayPrototype U k
            | i # _ \<Rightarrow> xs ! i))"
| "getProp U _ k = Undefined"

subsection \<open>Value coercion\<close>

text \<open>
  The store of the hidden fields: \<open>cached m i\<close> is \<^verbatim>\<open>_coercedDefaultValue\<close> of the
  descriptor \<open>i\<close>, and \<open>written m\<close> logs every assignment to such a field, in order.
\<close>

record memo =
  cached :: "nat \<Rightarrow> jsval"
  written :: "nat list"

text \<open>
  \<^verbatim>\<open>coerceInputValueImpl\<close> with its two loops and \<^verbatim>\<open>coerceDefaultValue\<close>. The third
  parameter \<^verbatim>\<open>path\<close> of the source is extended and passed on, and never read: no result
  depends on it, and the model leaves it out. \<open>AList.update\<close> is the assignment
  \<^verbatim>\<open>coercedValue[field.name] = ...\<close>: a new key goes last (a field name is a name, not
  an array index, so the properties are enumerated in the order of their creation; and
  it is a name that a type system may declare, not the reserved \<^verbatim>\<open>__proto__\<close>, so the
  assignment makes an own property). The first parameter is the environment, of which
  the coercion reads the built-in prototypes only.
\<close>

function (sequential) coerceInputValueImpl :: "env \<Rightarrow> memo \<Rightarrow> jsval \<Rightarrow> gtype \<Rightarrow> jsval \<times> memo"
and coerceItems :: "env \<Rightarrow> memo \<Rightarrow> jsval list \<Rightarrow> gtype \<Rightarrow> jsval list \<Rightarrow> jsval \<times> memo"
and coerceFields ::
  "env \<Rightarrow> memo \<Rightarrow> jsval \<Rightarrow> field list \<Rightarrow> (string \<times> jsval) list
     \<Rightarrow> (string \<times> jsval) list option \<times> memo"
and coerceDefaultValue :: "env \<Rightarrow> memo \<Rightarrow> field \<Rightarrow> jsval \<times> memo"
where
  "coerceInputValueImpl U m inputValue (NonNull ofType) =
     (if isNullish inputValue then (Undefined, m)
      else coerceInputValueImpl U m inputValue ofType)"
| "coerceInputValueImpl U m inputValue (ListT itemType) =
     (if isNullish inputValue then (Null, m)
      else if isIterableObject inputValue
      then coerceItems U m (items inputValue) itemType []
      else (case coerceInputValueImpl U m inputValue itemType of
              (coercedItem, m') \<Rightarrow>
                (if coercedItem = Undefined then Undefined else Array [coercedItem], m')))"
| "coerceInputValueImpl U m inputValue (InputObject name fieldDefs) =
     (if isNullish inputValue then (Null, m)
      else if \<not> isObjectLike inputValue then (Undefined, m)
      else (case coerceFields U m inputValue fieldDefs [] of
              (None, m') \<Rightarrow> (Undefined, m')
            | (Some coercedValue, m') \<Rightarrow>
                if list_all (\<lambda>fieldName. fieldDef fieldDefs fieldName \<noteq> None)
                     (ownKeys inputValue)
                then (Object coercedValue, m') else (Undefined, m')))"
| "coerceInputValueImpl U m inputValue (LeafT t) =
     (if isNullish inputValue then (Null, m)
      else (case parseValue t inputValue of
              Inl err \<Rightarrow> (Undefined, m)
            | Inr v \<Rightarrow> (v, m)))"
| "coerceItems U m [] itemType coercedValue = (Array coercedValue, m)"
| "coerceItems U m (itemValue # rest) itemType coercedValue =
     (case coerceInputValueImpl U m itemValue itemType of
        (coercedItem, m') \<Rightarrow>
          if coercedItem = Undefined then (Undefined, m')
          else coerceItems U m' rest itemType (coercedValue @ [coercedItem]))"
| "coerceFields U m inputValue [] coercedValue = (Some coercedValue, m)"
| "coerceFields U m inputValue (Field i name type defaultValue # rest) coercedValue =
     (let fieldValue = getProp U inputValue name in
      if fieldValue \<noteq> Undefined then
        (case coerceInputValueImpl U m fieldValue type of
           (coercedFieldValue, m') \<Rightarrow>
             if coercedFieldValue = Undefined then (None, m')
             else coerceFields U m' inputValue rest
                    (AList.update name coercedFieldValue coercedValue))
      else if defaultValue \<noteq> Undefined then
        (case coerceDefaultValue U m (Field i name type defaultValue) of
           (coercedDefault, m') \<Rightarrow>
             coerceFields U m' inputValue rest
               (AList.update name coercedDefault coercedValue))
      else if isNonNullType type then (None, m)
      else coerceFields U m inputValue rest coercedValue)"
| "coerceDefaultValue U m (Field i name type defaultValue) =
     (let coercedDefaultValue = cached m i in
      if coercedDefaultValue = Undefined then
        (case coerceInputValueImpl U m defaultValue type of
           (coercedDefaultValue', m') \<Rightarrow>
             (coercedDefaultValue',
              m'\<lparr>cached := (cached m')(i := coercedDefaultValue'),
                 written := written m' @ [i]\<rparr>))
      else (coercedDefaultValue, m))"
  by pat_completeness auto
termination
  by (relation "inv_image (less_than <*lex*> less_than)
        (\<lambda>x. case x of
            Inl (Inl (U, m, v, t)) \<Rightarrow> (size t, 0)
          | Inl (Inr (U, m, vs, t, acc)) \<Rightarrow> (size t, 1 + length vs)
          | Inr (Inl (U, m, v, fds, acc)) \<Rightarrow> (size_list size fds, 0)
          | Inr (Inr (U, m, f)) \<Rightarrow> (size f, 0))") auto

subsection \<open>Value validation\<close>

text \<open>
  The error callback receives the path array, the invalid value and the error; it
  either throws or returns, and \<open>'s\<close> is whatever state it keeps.
\<close>

type_synonym report = "pathkey list \<times> jsval \<times> thrown"

type_synonym 's OnErrorCB = "report \<Rightarrow> 's \<Rightarrow> thrown + 's"

definition quoted :: "string \<Rightarrow> string" where
  "quoted s = [CHR 0x22] @ s @ [CHR 0x22]"

definition reportInvalidValue ::
  "'s OnErrorCB \<Rightarrow> string \<Rightarrow> jsval \<Rightarrow> path \<Rightarrow> thrown option \<Rightarrow> 's \<Rightarrow> thrown + 's" where
  "reportInvalidValue onError msg v path orig s =
     onError (pathToArray path, v, GraphQLError msg orig) s"

text \<open>The second loop of the input-object branch, over \<^verbatim>\<open>Object.keys(inputValue)\<close>.\<close>

fun validateKeys ::
  "env \<Rightarrow> jsval \<Rightarrow> string \<Rightarrow> field list \<Rightarrow> 's OnErrorCB \<Rightarrow> path \<Rightarrow> string list
     \<Rightarrow> 's \<Rightarrow> thrown + 's" where
  "validateKeys U inputValue typeName fieldDefs onError path [] s = Inr s"
| "validateKeys U inputValue typeName fieldDefs onError path (fieldName # rest) s =
     (if fieldDef fieldDefs fieldName = None then
        (case reportInvalidValue onError
                (''Field '' @ quoted fieldName @ '' is not defined by type ''
                   @ quoted typeName @ ''.''
                   @ didYouMean U (suggestionList U fieldName (map fname fieldDefs)))
                inputValue path None s of
           Inl e \<Rightarrow> Inl e
         | Inr s' \<Rightarrow> validateKeys U inputValue typeName fieldDefs onError path rest s')
      else validateKeys U inputValue typeName fieldDefs onError path rest s)"

function (sequential) validateInputValueImpl ::
  "env \<Rightarrow> jsval \<Rightarrow> gtype \<Rightarrow> 's OnErrorCB \<Rightarrow> path \<Rightarrow> 's \<Rightarrow> thrown + 's"
and validateItems ::
  "env \<Rightarrow> jsval list \<Rightarrow> gtype \<Rightarrow> 's OnErrorCB \<Rightarrow> path \<Rightarrow> nat \<Rightarrow> 's \<Rightarrow> thrown + 's"
and validateFields ::
  "env \<Rightarrow> jsval \<Rightarrow> string \<Rightarrow> field list \<Rightarrow> 's OnErrorCB \<Rightarrow> path \<Rightarrow> 's \<Rightarrow> thrown + 's"
where
  "validateInputValueImpl U inputValue (NonNull ofType) onError path s =
     (if isNullish inputValue then
        reportInvalidValue onError
          (''Expected non-nullable type '' @ quoted (inspectType U (NonNull ofType))
             @ '' not to be null.'')
          inputValue path None s
      else validateInputValueImpl U inputValue ofType onError path s)"
| "validateInputValueImpl U inputValue (ListT itemType) onError path s =
     (if isNullish inputValue then Inr s
      else if isIterableObject inputValue
      then validateItems U (items inputValue) itemType onError path 0 s
      else validateInputValueImpl U inputValue itemType onError path s)"
| "validateInputValueImpl U inputValue (InputObject name fieldDefs) onError path s =
     (if isNullish inputValue then Inr s
      else if \<not> isObjectLike inputValue then
        reportInvalidValue onError
          (''Expected type '' @ quoted name @ '' to be an object.'')
          inputValue path None s
      else (case validateFields U inputValue name fieldDefs onError path s of
              Inl e \<Rightarrow> Inl e
            | Inr s' \<Rightarrow>
                validateKeys U inputValue name fieldDefs onError path
                  (ownKeys inputValue) s'))"
| "validateInputValueImpl U inputValue (LeafT t) onError path s =
     (if isNullish inputValue then Inr s
      else (case parseValue t inputValue of
              Inl (GraphQLError msg orig) \<Rightarrow>
                onError (pathToArray path, inputValue, GraphQLError msg orig) s
            | Inl (OtherError tr msg) \<Rightarrow>
                reportInvalidValue onError
                  (''Expected type '' @ quoted (lname t) @ ''.''
                     @ (if tr then '' '' @ msg else []))
                  inputValue path
                  (if tr then Some (OtherError tr msg) else None) s
            | Inr result \<Rightarrow>
                if result = Undefined then
                  reportInvalidValue onError
                    (''Expected type '' @ quoted (lname t) @ ''.'')
                    inputValue path None s
                else Inr s))"
| "validateItems U [] itemType onError path index s = Inr s"
| "validateItems U (itemValue # rest) itemType onError path index s =
     (case validateInputValueImpl U itemValue itemType onError
             (addPath path (Index index) None) s of
        Inl e \<Rightarrow> Inl e
      | Inr s' \<Rightarrow> validateItems U rest itemType onError path (Suc index) s')"
| "validateFields U inputValue typeName [] onError path s = Inr s"
| "validateFields U inputValue typeName (Field i name type defaultValue # rest)
     onError path s =
     (let fieldValue = getProp U inputValue name in
      if fieldValue \<noteq> Undefined then
        (case validateInputValueImpl U fieldValue type onError
                (addPath path (Key name) (Some typeName)) s of
           Inl e \<Rightarrow> Inl e
         | Inr s' \<Rightarrow> validateFields U inputValue typeName rest onError path s')
      else if isRequiredInputField (Field i name type defaultValue) then
        (case reportInvalidValue onError
                (''Field '' @ quoted name @ '' of required type ''
                   @ quoted (inspectType U type) @ '' was not provided.'')
                inputValue path None s of
           Inl e \<Rightarrow> Inl e
         | Inr s' \<Rightarrow> validateFields U inputValue typeName rest onError path s')
      else validateFields U inputValue typeName rest onError path s)"
  by pat_completeness auto
termination
  by (relation "inv_image (less_than <*lex*> less_than)
        (\<lambda>x. case x of
            Inl (U, v, t, cb, p, s) \<Rightarrow> (size t, 0)
          | Inr (Inl (U, vs, t, cb, p, i, s)) \<Rightarrow> (size t, 1 + length vs)
          | Inr (Inr (U, v, n, fds, cb, p, s)) \<Rightarrow> (size_list size fds, 0))") auto

definition validateInputValue ::
  "env \<Rightarrow> jsval \<Rightarrow> gtype \<Rightarrow> 's OnErrorCB \<Rightarrow> 's \<Rightarrow> thrown + 's" where
  "validateInputValue U inputValue type onError s =
     validateInputValueImpl U inputValue type onError NoPath s"

subsection \<open>The entry point of value coercion\<close>

fun defaultOnError :: "env \<Rightarrow> 's OnErrorCB" where
  "defaultOnError U (path, invalidValue, error) s =
     (let errorPrefix =
            ''Invalid value '' @ inspectValue U invalidValue
              @ (if length path > 0
                 then '' at '' @ quoted (''value'' @ printPathArray U path) else [])
      in Inl (case error of
                GraphQLError msg orig \<Rightarrow> GraphQLError (errorPrefix @ '': '' @ msg) orig
              | OtherError tr msg \<Rightarrow> OtherError tr (errorPrefix @ '': '' @ msg)))"

text \<open>
  The optional third argument is \<open>None\<close> when the caller leaves it out. The result is
  the thrown value, or the coerced value with the store and the callback's state.
\<close>

definition coerceInputValue ::
  "env \<Rightarrow> memo \<Rightarrow> jsval \<Rightarrow> gtype \<Rightarrow> 's OnErrorCB option \<Rightarrow> 's
     \<Rightarrow> thrown + (jsval \<times> memo \<times> 's)" where
  "coerceInputValue U m inputValue type onError s =
     (case coerceInputValueImpl U m inputValue type of
        (coercedValue, m') \<Rightarrow>
          if coercedValue = Undefined then
            (case validateInputValue U inputValue type
                    (case onError of None \<Rightarrow> defaultOnError U | Some cb \<Rightarrow> cb) s of
               Inl e \<Rightarrow> Inl e
             | Inr s' \<Rightarrow> Inr (coercedValue, m', s'))
          else Inr (coercedValue, m', s))"

subsection \<open>Literal coercion\<close>

fun isMissingVariable :: "vnode \<Rightarrow> variables option \<Rightarrow> bool" where
  "isMissingVariable (Variable name) variables =
     (case variables of None \<Rightarrow> True | Some vs \<Rightarrow> getVar vs name = Undefined)"
| "isMissingVariable _ variables = False"

text \<open>
  Modelled from the spec: \<^verbatim>\<open>keyMap\<close> of \<^verbatim>\<open>jsutils\<close> is not among the sources; it maps
  each key to the item that has it, and the spec takes field names as unique. Of two
  items with one key the model keeps the later.
\<close>

definition keyMap :: "(string \<times> vnode) list \<Rightarrow> string \<Rightarrow> vnode option" where
  "keyMap fieldNodes = map_of (rev fieldNodes)"

text \<open>
  \<^verbatim>\<open>fieldNode && !isMissingVariable(fieldNode.value, variables)\<close>: the value node of the
  field when the test holds.
\<close>

definition suppliedNode ::
  "(string \<Rightarrow> vnode option) \<Rightarrow> string \<Rightarrow> variables option \<Rightarrow> vnode option" where
  "suppliedNode fieldNodes name variables =
     (case fieldNodes name of
        None \<Rightarrow> None
      | Some valueNode \<Rightarrow>
          if isMissingVariable valueNode variables then None else Some valueNode)"

text \<open>
  The tests \<^verbatim>\<open>valueNode.kind === Kind.VARIABLE\<close>, \<^verbatim>\<open>Kind.LIST\<close> and
  \<^verbatim>\<open>Kind.OBJECT\<close>, with what the node of that kind holds.
\<close>

fun variableName :: "vnode \<Rightarrow> string option" where
  "variableName (Variable name) = Some name"
| "variableName _ = None"

fun listValues :: "vnode \<Rightarrow> vnode list option" where
  "listValues (ListValue values) = Some values"
| "listValues _ = None"

fun objectFields :: "vnode \<Rightarrow> (string \<times> vnode) list option" where
  "objectFields (ObjectValue fieldNodes) = Some fieldNodes"
| "objectFields _ = None"

text \<open>
  \<^verbatim>\<open>coerceInputLiteral\<close> first tests for a variable node and then goes by the type;
  \<open>coerceLiteralOfType\<close> is the function body after that first test.
\<close>

function (sequential) coerceInputLiteral ::
  "env \<Rightarrow> memo \<Rightarrow> vnode \<Rightarrow> gtype \<Rightarrow> variables option \<Rightarrow> jsval \<times> memo"
and coerceLiteralOfType ::
  "env \<Rightarrow> memo \<Rightarrow> vnode \<Rightarrow> gtype \<Rightarrow> variables option \<Rightarrow> jsval \<times> memo"
and coerceLiteralItems ::
  "env \<Rightarrow> memo \<Rightarrow> vnode list \<Rightarrow> gtype \<Rightarrow> variables option \<Rightarrow> jsval list \<Rightarrow> jsval \<times> memo"
and coerceLiteralFields ::
  "env \<Rightarrow> memo \<Rightarrow> (string \<Rightarrow> vnode option) \<Rightarrow> field list \<Rightarrow> variables option
     \<Rightarrow> (string \<times> jsval) list \<Rightarrow> (string \<times> jsval) list option \<times> memo"
where
  "coerceInputLiteral U m valueNode type variables =
     (case variableName valueNode of
        Some name \<Rightarrow>
          (case variables of
             None \<Rightarrow> (Undefined, m)
           | Some vs \<Rightarrow>
               if isMissingVariable valueNode (Some vs) then (Undefined, m)
               else (let variableValue = getVar vs name in
                     if variableValue = Null \<and> isNonNullType type then (Undefined, m)
                     else (variableValue, m)))
      | None \<Rightarrow> coerceLiteralOfType U m valueNode type variables)"
| "coerceLiteralOfType U m valueNode (NonNull ofType) variables =
     (if valueNode = NullValue then (Undefined, m)
      else coerceInputLiteral U m valueNode ofType variables)"
| "coerceLiteralOfType U m valueNode (ListT itemType) variables =
     (if valueNode = NullValue then (Null, m)
      else (case listValues valueNode of
              Some values \<Rightarrow> coerceLiteralItems U m values itemType variables []
            | None \<Rightarrow>
                (case coerceInputLiteral U m valueNode itemType variables of
                   (itemValue, m') \<Rightarrow>
                     if itemValue = Undefined then (Undefined, m')
                     else (Array [itemValue], m'))))"
| "coerceLiteralOfType U m valueNode (InputObject name fieldDefs) variables =
     (if valueNode = NullValue then (Null, m)
      else (case objectFields valueNode of
              None \<Rightarrow> (Undefined, m)
            | Some fieldNodes \<Rightarrow>
                (case coerceLiteralFields U m (keyMap fieldNodes) fieldDefs variables [] of
                   (None, m') \<Rightarrow> (Undefined, m')
                 | (Some coercedValue, m') \<Rightarrow> (Object coercedValue, m'))))"
| "coerceLiteralOfType U m valueNode (LeafT t) variables =
     (if valueNode = NullValue then (Null, m)
      else (case parseLiteral t valueNode variables of
              Inl err \<Rightarrow> (Undefined, m)
            | Inr v \<Rightarrow> (v, m)))"
| "coerceLiteralItems U m [] itemType variables coercedValue = (Array coercedValue, m)"
| "coerceLiteralItems U m (itemNode # rest) itemType variables coercedValue =
     (case coerceInputLiteral U m itemNode itemType variables of
        (itemValue, m') \<Rightarrow>
          if itemValue = Undefined then
            (if isMissingVariable itemNode variables \<and> \<not> isNonNullType itemType
             then coerceLiteralItems U m' rest itemType variables (coercedValue @ [Null])
             else (Undefined, m'))
          else coerceLiteralItems U m' rest itemType variables (coercedValue @ [itemValue]))"
| "coerceLiteralFields U m fieldNodes [] variables coercedValue = (Some coercedValue, m)"
| "coerceLiteralFields U m fieldNodes (Field i name type defaultValue # rest) variables
     coercedValue =
     (case suppliedNode fieldNodes name variables of
        Some valueNode \<Rightarrow>
          (case coerceInputLiteral U m valueNode type variables of
             (fieldValue, m') \<Rightarrow>
               if fieldValue = Undefined then (None, m')
               else coerceLiteralFields U m' fieldNodes rest variables
                      (AList.update name fieldValue coercedValue))
      | None \<Rightarrow>
          if defaultValue \<noteq> Undefined then
            (case coerceDefaultValue U m (Field i name type defaultValue) of
               (coercedDefault, m') \<Rightarrow>
                 coerceLiteralFields U m' fieldNodes rest variables
                   (AList.update name coercedDefault coercedValue))
          else if isNonNullType type then (None, m)
          else coerceLiteralFields U m fieldNodes rest variables coercedValue)"


  by pat_completeness auto
termination
  by (relation "inv_image (less_than <*lex*> less_than)
        (\<lambda>x. case x of
            Inl (Inl (U, m, n, t, v)) \<Rightarrow> (size t, 1)
          | Inl (Inr (U, m, n, t, v)) \<Rightarrow> (size t, 0)
          | Inr (Inl (U, m, ns, t, v, acc)) \<Rightarrow> (size t, 2 + length ns)
          | Inr (Inr (U, m, fns, fds, v, acc)) \<Rightarrow> (size_list size fds, 0))") auto

subsection \<open>AST reconstruction\<close>

definition isDigit :: "char \<Rightarrow> bool" where
  "isDigit c = (c \<in> set ''0123456789'')"

definition isNameStart :: "char \<Rightarrow> bool" where
  "isNameStart c = (c \<in> set ''_abcdefghijklmnopqrstuvwxyzABCDEFGHIJKLMNOPQRSTUVWXYZ'')"

text \<open>\<^verbatim>\<open>(?:0|[1-9][0-9]*)\<close> against a whole string\<close>

fun unsignedInteger :: "string \<Rightarrow> bool" where
  "unsignedInteger [] = False"
| "unsignedInteger (c # cs) =
     (if c = CHR ''0'' then cs = []
      else c \<in> set ''123456789'' \<and> list_all isDigit cs)"

text \<open>\<^verbatim>\<open>/^-?(?:0|[1-9][0-9]*)$/.test(s)\<close>\<close>

fun integerStringRegExp :: "string \<Rightarrow> bool" where
  "integerStringRegExp [] = False"
| "integerStringRegExp (c # cs) =
     (if c = CHR ''-'' then unsignedInteger cs else unsignedInteger (c # cs))"

text \<open>\<^verbatim>\<open>/^[_a-zA-Z][_a-zA-Z0-9]*$/.test(s)\<close>\<close>

fun nameRegExp :: "string \<Rightarrow> bool" where
  "nameRegExp [] = False"
| "nameRegExp (c # cs) =
     (isNameStart c \<and> list_all (\<lambda>d. isNameStart d \<or> isDigit d) cs)"

fun isEnumType :: "gtype option \<Rightarrow> bool" where
  "isEnumType (Some (LeafT t)) = (lkind t = EnumType)"
| "isEnumType _ = False"

text \<open>\<^verbatim>\<open>namedType === GraphQLID\<close>\<close>

fun isGraphQLID :: "gtype option \<Rightarrow> bool" where
  "isGraphQLID (Some (LeafT t)) = (lkind t = IDScalar)"
| "isGraphQLID _ = False"

text \<open>
  \<^verbatim>\<open>namedType && isInputObjectType(namedType) && namedType.getFields()\<close>, and
  \<^verbatim>\<open>fieldDefs?.[fieldName]?.type\<close> on its result.
\<close>

fun fieldDefsOf :: "gtype option \<Rightarrow> field list option" where
  "fieldDefsOf (Some (InputObject name fieldDefs)) = Some fieldDefs"
| "fieldDefsOf _ = None"

definition fieldTypeOf :: "field list option \<Rightarrow> string \<Rightarrow> gtype option" where
  "fieldTypeOf fieldDefs fieldName =
     (case fieldDefs of
        None \<Rightarrow> None
      | Some fds \<Rightarrow> map_option ftype (fieldDef fds fieldName))"

text \<open>
  \<^verbatim>\<open>astFromValue\<close>; its first parameter is \<^verbatim>\<open>String\<close> on finite numbers. The tests of
  the source follow the classification of the value, which the constructors of
  \<open>jsval\<close> give. \<^verbatim>\<open>Array.from\<close> and \<^verbatim>\<open>map\<close> stop at the first item that throws. An
  object node gets one field per own key, with the value of that key.
\<close>

fun astFromValue :: "(real \<Rightarrow> string) \<Rightarrow> jsval \<Rightarrow> gtype option \<Rightarrow> type_error + vnode"
and astFromItems ::
  "(real \<Rightarrow> string) \<Rightarrow> jsval list \<Rightarrow> gtype option \<Rightarrow> type_error + vnode list"
and astFromProps ::
  "(real \<Rightarrow> string) \<Rightarrow> (string \<times> jsval) list \<Rightarrow> field list option
     \<Rightarrow> type_error + (string \<times> vnode) list"
where
  "astFromValue S Undefined type = Inr NullValue"
| "astFromValue S Null type = Inr NullValue"
| "astFromValue S (Array xs) type =
     (case astFromItems S xs (map_option getNamedType type) of
        Inl e \<Rightarrow> Inl e
      | Inr values \<Rightarrow> Inr (ListValue values))"
| "astFromValue S (Object kvs) type =
     (case astFromProps S kvs (fieldDefsOf (map_option getNamedType type)) of
        Inl e \<Rightarrow> Inl e
      | Inr fieldNodes \<Rightarrow> Inr (ObjectValue fieldNodes))"
| "astFromValue S (Boolean b) type = Inr (BooleanValue b)"
| "astFromValue S (Number n) type =
     (case n of
        Finite r \<Rightarrow>
          (let stringNum = S r in
           if integerStringRegExp stringNum then Inr (IntValue stringNum)
           else Inr (FloatValue stringNum))
      | _ \<Rightarrow> Inr NullValue)"
| "astFromValue S (Str s) type =
     (let namedType = map_option getNamedType type in
      if isEnumType namedType \<and> nameRegExp s then Inr (EnumValue s)
      else if isGraphQLID namedType \<and> integerStringRegExp s then Inr (IntValue s)
      else Inr (StringValue s))"
| "astFromValue S (Opaque k) type = Inl (TypeError (Opaque k))"
| "astFromItems S [] type = Inr []"
| "astFromItems S (item # rest) type =
     (case astFromValue S item type of
        Inl e \<Rightarrow> Inl e
      | Inr node \<Rightarrow>
          (case astFromItems S rest type of
             Inl e \<Rightarrow> Inl e
           | Inr nodes \<Rightarrow> Inr (node # nodes)))"
| "astFromProps S [] fieldDefs = Inr []"
| "astFromProps S ((fieldName, v) # rest) fieldDefs =
     (case astFromValue S v (fieldTypeOf fieldDefs fieldName) of
        Inl e \<Rightarrow> Inl e
      | Inr node \<Rightarrow>
          (case astFromProps S rest fieldDefs of
             Inl e \<Rightarrow> Inl e
           | Inr nodes \<Rightarrow> Inr ((fieldName, node) # nodes)))"

section \<open>Notions for stating the properties\<close>

subsection \<open>What validation reports\<close>

text \<open>
  \<open>collectReports\<close> is the callback that appends each report to a list and never
  throws. \<open>reportsOf\<close> is what \<^verbatim>\<open>validateInputValueImpl\<close> reports to it from the empty
  list; \<open>deliver\<close> hands a list of reports to a callback, one after the other, and stops
  when the callback throws.
\<close>

definition collectReports :: "report list OnErrorCB" where
  "collectReports r rs = Inr (rs @ [r])"

fun deliver :: "'s OnErrorCB \<Rightarrow> report list \<Rightarrow> 's \<Rightarrow> thrown + 's" where
  "deliver onError [] s = Inr s"
| "deliver onError (r # rs) s =
     (case onError r s of Inl e \<Rightarrow> Inl e | Inr s' \<Rightarrow> deliver onError rs s')"

definition reportsOf :: "env \<Rightarrow> jsval \<Rightarrow> gtype \<Rightarrow> path \<Rightarrow> report list" where
  "reportsOf U v T p =
     (case validateInputValueImpl U v T collectReports p [] of Inl e \<Rightarrow> [] | Inr rs \<Rightarrow> rs)"

definition reportsItems :: "env \<Rightarrow> jsval list \<Rightarrow> gtype \<Rightarrow> path \<Rightarrow> nat \<Rightarrow> report list" where
  "reportsItems U xs T p i =
     (case validateItems U xs T collectReports p i [] of Inl e \<Rightarrow> [] | Inr rs \<Rightarrow> rs)"

definition reportsFields ::
  "env \<Rightarrow> jsval \<Rightarrow> string \<Rightarrow> field list \<Rightarrow> path \<Rightarrow> report list" where
  "reportsFields U v n fds p =
     (case validateFields U v n fds collectReports p [] of Inl e \<Rightarrow> [] | Inr rs \<Rightarrow> rs)"

text \<open>The reports of the single branches, with the message each one builds.\<close>

definition nonNullReport :: "env \<Rightarrow> jsval \<Rightarrow> gtype \<Rightarrow> path \<Rightarrow> report" where
  "nonNullReport U v T p =
     (pathToArray p, v,
      GraphQLError (''Expected non-nullable type '' @ quoted (inspectType U (NonNull T))
                      @ '' not to be null.'') None)"

definition notObjectReport :: "jsval \<Rightarrow> string \<Rightarrow> path \<Rightarrow> report" where
  "notObjectReport v n p =
     (pathToArray p, v, GraphQLError (''Expected type '' @ quoted n @ '' to be an object.'') None)"

definition missingFieldReport :: "env \<Rightarrow> jsval \<Rightarrow> path \<Rightarrow> field \<Rightarrow> report" where
  "missingFieldReport U v p f =
     (pathToArray p, v,
      GraphQLError (''Field '' @ quoted (fname f) @ '' of required type ''
                      @ quoted (inspectType U (ftype f)) @ '' was not provided.'') None)"

definition unknownFieldReport ::
  "env \<Rightarrow> jsval \<Rightarrow> string \<Rightarrow> field list \<Rightarrow> path \<Rightarrow> string \<Rightarrow> report" where
  "unknownFieldReport U v n fds p k =
     (pathToArray p, v,
      GraphQLError (''Field '' @ quoted k @ '' is not defined by type '' @ quoted n @ ''.''
                      @ didYouMean U (suggestionList U k (map fname fds))) None)"

definition unknownKeys :: "field list \<Rightarrow> jsval \<Rightarrow> string list" where
  "unknownKeys fds v = filter (\<lambda>k. fieldDef fds k = None) (ownKeys v)"

definition leafReports :: "jsval \<Rightarrow> leaf \<Rightarrow> path \<Rightarrow> report list" where
  "leafReports v t p =
     (case parseValue t v of
        Inl (GraphQLError msg orig) \<Rightarrow> [(pathToArray p, v, GraphQLError msg orig)]
      | Inl (OtherError tr msg) \<Rightarrow>
          [(pathToArray p, v,
            GraphQLError (''Expected type '' @ quoted (lname t) @ ''.''
                            @ (if tr then '' '' @ msg else []))
              (if tr then Some (OtherError tr msg) else None))]
      | Inr result \<Rightarrow>
          if result = Undefined
          then [(pathToArray p, v,
                 GraphQLError (''Expected type '' @ quoted (lname t) @ ''.'') None)]
          else [])"

definition fieldReports :: "env \<Rightarrow> jsval \<Rightarrow> string \<Rightarrow> path \<Rightarrow> field \<Rightarrow> report list" where
  "fieldReports U v n p f =
     (if getProp U v (fname f) \<noteq> Undefined
      then reportsOf U (getProp U v (fname f)) (ftype f) (addPath p (Key (fname f)) (Some n))
      else if isRequiredInputField f then [missingFieldReport U v p f]
      else [])"


text \<open>
  A run of the validation with \<open>collectReports\<close> emits \<open>rs\<close> when it appends exactly
  \<open>rs\<close> to whatever was collected before.
\<close>

definition emits :: "(report list \<Rightarrow> thrown + report list) \<Rightarrow> report list \<Rightarrow> bool" where
  "emits f rs = (\<forall>acc. f acc = Inr (acc @ rs))"

subsection \<open>The descriptors of a type\<close>

text \<open>The identities of the field descriptors that occur in a type.\<close>

fun typeIds :: "gtype \<Rightarrow> nat set"
and fieldIds :: "field \<Rightarrow> nat set" where
  "typeIds (NonNull t) = typeIds t"
| "typeIds (ListT t) = typeIds t"
| "typeIds (InputObject n fds) = (\<Union>f \<in> set fds. fieldIds f)"
| "typeIds (LeafT t) = {}"
| "fieldIds (Field i n t d) = insert i (typeIds t)"

text \<open>
  A coercion leaves the descriptor \<open>j\<close> unchanged when it neither changes what the
  descriptor holds nor assigns to it.
\<close>

definition unchanged :: "nat \<Rightarrow> memo \<Rightarrow> memo \<Rightarrow> bool" where
  "unchanged j m m' =
     (cached m' j = cached m j \<and> count_list (written m') j = count_list (written m) j)"

subsection \<open>Values in the coerced form of a type\<close>

text \<open>
  \<open>canonical S vars v T\<close>: the value \<open>v\<close> is in the coerced form of the type \<open>T\<close>.
  It is \<^verbatim>\<open>null\<close> where the type is not Non-Null; a sequence of such values for a list
  type; for an input-object type a mapping that lists, in declared order, declared fields
  with such values, where a field it lacks has no default and no Non-Null type; and for a
  leaf type a value whose node from \<^verbatim>\<open>astFromValue\<close> is not the null node and is
  parsed back to the value by \<^verbatim>\<open>parseLiteral\<close> of the leaf type.
\<close>

function (sequential) canonical ::
  "(real \<Rightarrow> string) \<Rightarrow> variables option \<Rightarrow> jsval \<Rightarrow> gtype \<Rightarrow> bool"
and canonicalFields ::
  "(real \<Rightarrow> string) \<Rightarrow> variables option \<Rightarrow> (string \<times> jsval) list \<Rightarrow> field list \<Rightarrow> bool"
where
  "canonical S vars v (NonNull T) = (\<not> isNullish v \<and> canonical S vars v T)"
| "canonical S vars v (ListT T) =
     (case v of
        Null \<Rightarrow> True
      | Array xs \<Rightarrow> list_all (\<lambda>x. canonical S vars x T) xs
      | _ \<Rightarrow> False)"
| "canonical S vars v (InputObject n fds) =
     (case v of
        Null \<Rightarrow> True
      | Object kvs \<Rightarrow> distinct (map fname fds) \<and> canonicalFields S vars kvs fds
      | _ \<Rightarrow> False)"
| "canonical S vars v (LeafT t) =
     (case v of
        Null \<Rightarrow> True
      | Undefined \<Rightarrow> False
      | _ \<Rightarrow>
          (case astFromValue S v (Some (LeafT t)) of
             Inl e \<Rightarrow> False
           | Inr node \<Rightarrow> node \<noteq> NullValue \<and> parseLiteral t node vars = Inr v))"
| "canonicalFields S vars kvs [] = (kvs = [])"
| "canonicalFields S vars kvs (Field i name type d # rest) =
     (case kvs of
        [] \<Rightarrow> d = Undefined \<and> \<not> isNonNullType type \<and> canonicalFields S vars [] rest
      | (k, x) # kvs' \<Rightarrow>
          if k = name then canonical S vars x type \<and> canonicalFields S vars kvs' rest
          else d = Undefined \<and> \<not> isNonNullType type \<and> canonicalFields S vars kvs rest)"
  by pat_completeness auto
termination
  by (relation "measure (\<lambda>x. case x of
                   Inl (S, vars, v, T) \<Rightarrow> size T
                 | Inr (S, vars, kvs, fds) \<Rightarrow> size_list size fds)") auto

text \<open>
  A field node stands for a property of a value: it has its key, it is no variable
  node, and it is coerced to the value of the property, which is not \<^verbatim>\<open>undefined\<close>.
\<close>

definition nodeFor ::
  "env \<Rightarrow> variables option \<Rightarrow> field list \<Rightarrow> string \<times> jsval \<Rightarrow> string \<times> vnode \<Rightarrow> bool" where
  "nodeFor U vars fds kx kn =
     (fst kn = fst kx \<and> variableName (snd kn) = None \<and> snd kx \<noteq> Undefined
      \<and> (\<forall>f \<in> set fds. fname f = fst kx \<longrightarrow>
            (\<forall>m. coerceInputLiteral U m (snd kn) (ftype f) vars = (snd kx, m))))"

subsection \<open>A type without its Non-Null wrappers\<close>

text \<open>The type with every Non-Null wrapper removed, also inside lists and field types.\<close>

fun withoutNonNull :: "gtype \<Rightarrow> gtype"
and withoutNonNullField :: "field \<Rightarrow> field" where
  "withoutNonNull (NonNull T) = withoutNonNull T"
| "withoutNonNull (ListT T) = ListT (withoutNonNull T)"
| "withoutNonNull (InputObject n fds) = InputObject n (map withoutNonNullField fds)"
| "withoutNonNull (LeafT t) = LeafT t"
| "withoutNonNullField (Field i n T d) = Field i n (withoutNonNull T) d"

subsection \<open>Integer syntax in the words of the specification\<close>

text \<open>
  "Optional leading minus, no leading zero unless the value is exactly zero", for a
  non-empty string of digits.
\<close>

definition integerSyntax :: "string \<Rightarrow> bool" where
  "integerSyntax s =
     (\<exists>digits. (s = digits \<or> s = CHR ''-'' # digits) \<and> digits \<noteq> []
        \<and> list_all isDigit digits \<and> (hd digits = CHR ''0'' \<longrightarrow> digits = ''0''))"

subsection \<open>Concrete types and values for the instances\<close>

definition emptyMemo :: memo where
  "emptyMemo = \<lparr>cached = (\<lambda>i. Undefined), written = []\<rparr>"

text \<open>A scalar type like the built-in \<^verbatim>\<open>Boolean\<close>: both parse operations accept booleans only.\<close>

definition GraphQLBoolean :: leaf where
  "GraphQLBoolean =
     \<lparr>lname = ''Boolean'', lkind = OtherScalar,
      parseValue = (\<lambda>v. case v of
                      Boolean b \<Rightarrow> Inr (Boolean b)
                    | _ \<Rightarrow> Inl (GraphQLError ''Boolean cannot represent a non boolean value'' None)),
      parseLiteral = (\<lambda>node variables. case node of
                      BooleanValue b \<Rightarrow> Inr (Boolean b)
                    | _ \<Rightarrow> Inl (GraphQLError ''Boolean cannot represent a non boolean value'' None))\<rparr>"

text \<open>
  The enum type \<^verbatim>\<open>MyEnum\<close> of the tests of \<^verbatim>\<open>astFromValue\<close>: the names \<^verbatim>\<open>HELLO\<close> and
  \<^verbatim>\<open>GOODBYE\<close> stand for themselves, and \<^verbatim>\<open>COMPLEX\<close> has the internal value
  \<^verbatim>\<open>{ someArbitrary: 'complexValue' }\<close>. An enum type parses the name, given as a
  string or as an enum literal, to the internal value, and throws on anything else.
\<close>

definition complexValue :: jsval where
  "complexValue = Object [(''someArbitrary'', Str ''complexValue'')]"

definition myEnumValue :: "string \<Rightarrow> thrown + jsval" where
  "myEnumValue name =
     (if name = ''HELLO'' then Inr (Str ''HELLO'')
      else if name = ''GOODBYE'' then Inr (Str ''GOODBYE'')
      else if name = ''COMPLEX'' then Inr complexValue
      else Inl (GraphQLError ''Value does not exist in MyEnum enum.'' None))"

definition myEnum :: leaf where
  "myEnum =
     \<lparr>lname = ''MyEnum'', lkind = EnumType,
      parseValue = (\<lambda>v. case v of
                      Str name \<Rightarrow> myEnumValue name
                    | _ \<Rightarrow> Inl (GraphQLError ''Enum MyEnum cannot represent non-string value'' None)),
      parseLiteral = (\<lambda>node variables. case node of
                      EnumValue name \<Rightarrow> myEnumValue name
                    | _ \<Rightarrow> Inl (GraphQLError ''Enum MyEnum cannot represent non-enum value'' None))\<rparr>"

text \<open>
  A choice of the built-in prototypes, after ECMAScript 2016: a function is an
  \<open>Opaque\<close> value, and a plain object inherits the members of \<^verbatim>\<open>Object.prototype\<close>
  (\<^verbatim>\<open>__proto__\<close> reads the prototype, an object without enumerable own properties);
  an array inherits the functions of \<^verbatim>\<open>Array.prototype\<close>, and from
  \<^verbatim>\<open>Object.prototype\<close> what these do not hide.
\<close>

definition objectMembers :: "string list" where
  "objectMembers =
     [''constructor'', ''hasOwnProperty'', ''isPrototypeOf'', ''propertyIsEnumerable'',
      ''toLocaleString'', ''toString'', ''valueOf'', ''__defineGetter__'',
      ''__defineSetter__'', ''__lookupGetter__'', ''__lookupSetter__'']"

definition arrayMembers :: "string list" where
  "arrayMembers =
     [''constructor'', ''concat'', ''copyWithin'', ''entries'', ''every'', ''fill'',
      ''filter'', ''find'', ''findIndex'', ''forEach'', ''includes'', ''indexOf'', ''join'',
      ''keys'', ''lastIndexOf'', ''map'', ''pop'', ''push'', ''reduce'', ''reduceRight'',
      ''reverse'', ''shift'', ''slice'', ''some'', ''sort'', ''splice'', ''toLocaleString'',
      ''toString'', ''unshift'', ''values'']"

definition exampleObjectPrototype :: "string \<Rightarrow> jsval" where
  "exampleObjectPrototype k =
     (if k = ''__proto__'' then Object []
      else (case map_of (zip objectMembers (map Opaque [0..<length objectMembers])) k of
              None \<Rightarrow> Undefined
            | Some f \<Rightarrow> f))"

definition exampleArrayPrototype :: "string \<Rightarrow> jsval" where
  "exampleArrayPrototype k =
     (if k = ''__proto__'' then Array []
      else (case map_of (zip arrayMembers (map Opaque [100..<100 + length arrayMembers])) k of
              None \<Rightarrow> exampleObjectPrototype k
            | Some f \<Rightarrow> f))"

text \<open>A choice of the message helpers, and of \<^verbatim>\<open>String\<close> on the numbers 3 and 123.5.\<close>

fun typeString :: "gtype \<Rightarrow> string" where
  "typeString (NonNull t) = typeString t @ ''!''"
| "typeString (ListT t) = ''['' @ typeString t @ '']''"
| "typeString (InputObject n fds) = n"
| "typeString (LeafT t) = lname t"

definition exampleUtils :: env where
  "exampleUtils =
     \<lparr>inspectType = typeString, inspectValue = (\<lambda>v. ''value''),
      printPathArray = (\<lambda>p. []), suggestionList = (\<lambda>k ks. []),
      didYouMean = (\<lambda>suggestions. []),
      objectPrototype = exampleObjectPrototype, arrayPrototype = exampleArrayPrototype\<rparr>"

definition exampleString :: "real \<Rightarrow> string" where
  "exampleString r = (if r = 3 then ''3'' else ''123.5'')"

text \<open>
  Variable mappings: three objects without a prototype, and the plain object \<^verbatim>\<open>{}\<close>.
\<close>

definition variablesTrue :: "variables" where
  "variablesTrue = \<lparr>entries = [''x'' \<mapsto> Boolean True], inherited = (\<lambda>k. Undefined)\<rparr>"

definition variablesObject :: "variables" where
  "variablesObject =
     \<lparr>entries = [''x'' \<mapsto> Object [(''zzz'', Boolean True)]], inherited = (\<lambda>k. Undefined)\<rparr>"

definition variablesCoerced :: "variables" where
  "variablesCoerced =
     \<lparr>entries = [''x'' \<mapsto> Object [(''a'', Boolean True)]], inherited = (\<lambda>k. Undefined)\<rparr>"



definition oneOptional :: "field list" where
  "oneOptional = [Field 0 ''a'' (LeafT GraphQLBoolean) Undefined]"



text \<open>An input-object type with a required and an optional field.\<close>

definition twoFields :: "field list" where
  "twoFields =
     [Field 0 ''a'' (NonNull (LeafT GraphQLBoolean)) Undefined,
      Field 1 ''b'' (LeafT myEnum) Undefined]"

text \<open>A descriptor whose default value \<^verbatim>\<open>null\<close> is invalid for its Non-Null type.\<close>

definition invalidDefault :: field where
  "invalidDefault = Field 0 ''a'' (NonNull (LeafT GraphQLBoolean)) Null"

definition validDefault :: field where
  "validDefault = Field 0 ''a'' (LeafT GraphQLBoolean) (Boolean True)"

section \<open>Lemmas\<close>

subsection \<open>Reports are collected in order and delivered to any callback\<close>

lemma emits_unique: "emits f rs \<Longrightarrow> (case f [] of Inl e \<Rightarrow> [] | Inr rs' \<Rightarrow> rs') = rs"
  by (simp add: emits_def)

lemma deliver_append:
  "deliver cb (xs @ ys) s = (case deliver cb xs s of Inl e \<Rightarrow> Inl e | Inr s' \<Rightarrow> deliver cb ys s')"
  by (induction xs arbitrary: s) (auto split: sum.splits)

lemma deliver_collect: "deliver collectReports rs acc = Inr (acc @ rs)"
  by (induction rs arbitrary: acc) (auto simp: collectReports_def)

lemma validateKeys_deliver:
  "validateKeys U v n fds cb p ks s =
     deliver cb (map (unknownFieldReport U v n fds p) (filter (\<lambda>k. fieldDef fds k = None) ks)) s"
  by (induction ks arbitrary: s)
     (auto simp: reportInvalidValue_def unknownFieldReport_def split: sum.splits)

lemma emits_validateKeys:
  "emits (validateKeys U v n fds collectReports p ks)
     (map (unknownFieldReport U v n fds p) (filter (\<lambda>k. fieldDef fds k = None) ks))"
  by (simp add: emits_def validateKeys_deliver deliver_collect)

lemma emits_validateItems:
  assumes "\<And>x p. \<exists>rs. emits (validateInputValueImpl U x T collectReports p) rs"
  shows "\<exists>rs. emits (validateItems U xs T collectReports p i) rs"
proof (induction xs arbitrary: i)
  case Nil
  have "emits (validateItems U [] T collectReports p i) []"
    by (simp add: emits_def)
  then show ?case by blast
next
  case (Cons x xs)
  obtain r1 where r1: "emits (validateInputValueImpl U x T collectReports (addPath p (Index i) None)) r1"
    using assms by blast
  obtain r2 where r2: "emits (validateItems U xs T collectReports p (Suc i)) r2"
    using Cons.IH by blast
  have "emits (validateItems U (x # xs) T collectReports p i) (r1 @ r2)"
    using r1 r2 by (simp add: emits_def)
  then show ?case by blast
qed

lemma emits_validateFields:
  assumes "\<And>f x p. f \<in> set fds \<Longrightarrow> \<exists>rs. emits (validateInputValueImpl U x (ftype f) collectReports p) rs"
  shows "\<exists>rs. emits (validateFields U v n fds collectReports p) rs"
  using assms
proof (induction fds)
  case Nil
  have "emits (validateFields U v n [] collectReports p) []"
    by (simp add: emits_def)
  then show ?case by blast
next
  case (Cons f fds)
  obtain i name type d where f: "f = Field i name type d" by (cases f)
  obtain r2 where r2: "emits (validateFields U v n fds collectReports p) r2"
    using Cons by (meson list.set_intros(2))
  obtain r1 where r1: "emits (validateInputValueImpl U (getProp U v name) type collectReports
                                (addPath p (Key name) (Some n))) r1"
    using Cons.prems[of f] f by auto
  have "\<exists>rs. emits (validateFields U v n (Field i name type d # fds) collectReports p) rs"
  proof (cases "getProp U v name \<noteq> Undefined")
    case True
    then have "emits (validateFields U v n (Field i name type d # fds) collectReports p) (r1 @ r2)"
      using r1 r2 by (simp add: emits_def)
    then show ?thesis by blast
  next
    case False
    show ?thesis
    proof (cases "isRequiredInputField (Field i name type d)")
      case True
      have "emits (validateFields U v n (Field i name type d # fds) collectReports p)
              ([missingFieldReport U v p (Field i name type d)] @ r2)"
        using False True r2
        by (simp add: emits_def reportInvalidValue_def collectReports_def missingFieldReport_def)
      then show ?thesis by blast
    next
      case nreq: False
      have "emits (validateFields U v n (Field i name type d # fds) collectReports p) r2"
        using False nreq r2 by (simp add: emits_def)
      then show ?thesis by blast
    qed
  qed
  then show ?case unfolding f .
qed

lemma emits_validate_all:
  fixes T :: gtype and f :: field
  shows "\<forall>v p. \<exists>rs. emits (validateInputValueImpl U v T collectReports p) rs"
    and "\<forall>v p. \<exists>rs. emits (validateInputValueImpl U v (ftype f) collectReports p) rs"
proof (induction T and f)
  case (NonNull T)
  show ?case
  proof (intro allI)
    fix v p
    obtain r where r: "emits (validateInputValueImpl U v T collectReports p) r"
      using NonNull by blast
    show "\<exists>rs. emits (validateInputValueImpl U v (NonNull T) collectReports p) rs"
    proof (cases "isNullish v")
      case True
      then have "emits (validateInputValueImpl U v (NonNull T) collectReports p) [nonNullReport U v T p]"
        by (simp add: emits_def reportInvalidValue_def collectReports_def nonNullReport_def)
      then show ?thesis by blast
    next
      case False
      then have "emits (validateInputValueImpl U v (NonNull T) collectReports p) r"
        using r by (simp add: emits_def)
      then show ?thesis by blast
    qed
  qed
next
  case (ListT T)
  show ?case
  proof (intro allI)
    fix v p
    obtain r where r: "emits (validateInputValueImpl U v T collectReports p) r"
      using ListT by blast
    obtain r' where r': "emits (validateItems U (items v) T collectReports p 0) r'"
      using emits_validateItems[of U T "items v" p 0] ListT by blast
    have "emits (validateInputValueImpl U v (ListT T) collectReports p)
            (if isNullish v then [] else if isIterableObject v then r' else r)"
      using r r' by (simp add: emits_def)
    then show "\<exists>rs. emits (validateInputValueImpl U v (ListT T) collectReports p) rs" by blast
  qed
next
  case (InputObject n fds)
  show ?case
  proof (intro allI)
    fix v p
    obtain r where r: "emits (validateFields U v n fds collectReports p) r"
      using emits_validateFields[of fds U v n p] InputObject by blast
    have "emits (validateInputValueImpl U v (InputObject n fds) collectReports p)
            (if isNullish v then [] else if \<not> isObjectLike v then [notObjectReport v n p]
             else r @ map (unknownFieldReport U v n fds p) (unknownKeys fds v))"
      using r emits_validateKeys[of U v n fds p "ownKeys v"]
      by (simp add: emits_def reportInvalidValue_def collectReports_def notObjectReport_def
            unknownKeys_def)
    then show "\<exists>rs. emits (validateInputValueImpl U v (InputObject n fds) collectReports p) rs"
      by blast
  qed
next
  case (LeafT t)
  show ?case
  proof (intro allI)
    fix v p
    have "emits (validateInputValueImpl U v (LeafT t) collectReports p)
            (if isNullish v then [] else leafReports v t p)"
      by (auto simp: emits_def reportInvalidValue_def collectReports_def leafReports_def
            split: sum.splits thrown.splits)
    then show "\<exists>rs. emits (validateInputValueImpl U v (LeafT t) collectReports p) rs" by blast
  qed
next
  case (Field i name T d)
  then show ?case by simp
qed

lemma validate_collect:
  "validateInputValueImpl U v T collectReports p acc = Inr (acc @ reportsOf U v T p)"
proof -
  obtain rs where rs: "emits (validateInputValueImpl U v T collectReports p) rs"
    using emits_validate_all(1) by blast
  then have "reportsOf U v T p = rs"
    unfolding reportsOf_def by (rule emits_unique)
  with rs show ?thesis by (simp add: emits_def)
qed

lemma validateItems_collect:
  "validateItems U xs T collectReports p i acc = Inr (acc @ reportsItems U xs T p i)"
proof -
  obtain rs where rs: "emits (validateItems U xs T collectReports p i) rs"
    using emits_validateItems emits_validate_all(1) by blast
  then have "reportsItems U xs T p i = rs"
    unfolding reportsItems_def by (rule emits_unique)
  with rs show ?thesis by (simp add: emits_def)
qed

lemma validateFields_collect:
  "validateFields U v n fds collectReports p acc = Inr (acc @ reportsFields U v n fds p)"
proof -
  obtain rs where rs: "emits (validateFields U v n fds collectReports p) rs"
    using emits_validateFields emits_validate_all(1) by blast
  then have "reportsFields U v n fds p = rs"
    unfolding reportsFields_def by (rule emits_unique)
  with rs show ?thesis by (simp add: emits_def)
qed

lemma reportsOf_eqI:
  "validateInputValueImpl U v T collectReports p [] = Inr rs \<Longrightarrow> reportsOf U v T p = rs"
  by (simp add: reportsOf_def)

lemma reportsItems_eqI:
  "validateItems U xs T collectReports p i [] = Inr rs \<Longrightarrow> reportsItems U xs T p i = rs"
  by (simp add: reportsItems_def)

lemma reportsFields_eqI:
  "validateFields U v n fds collectReports p [] = Inr rs \<Longrightarrow> reportsFields U v n fds p = rs"
  by (simp add: reportsFields_def)

lemma reportsOf_NonNull:
  "reportsOf U v (NonNull T) p =
     (if isNullish v then [nonNullReport U v T p] else reportsOf U v T p)"
proof -
  have "validateInputValueImpl U v (NonNull T) collectReports p [] =
          Inr (if isNullish v then [nonNullReport U v T p] else reportsOf U v T p)"
    by (subst validateInputValueImpl.simps)
       (simp add: validate_collect reportInvalidValue_def collectReports_def nonNullReport_def)
  then show ?thesis
    by (rule reportsOf_eqI)
qed

lemma reportsOf_ListT:
  "reportsOf U v (ListT T) p =
     (if isNullish v then [] else if isIterableObject v then reportsItems U (items v) T p 0
      else reportsOf U v T p)"
proof -
  have "validateInputValueImpl U v (ListT T) collectReports p [] =
          Inr (if isNullish v then [] else if isIterableObject v
               then reportsItems U (items v) T p 0 else reportsOf U v T p)"
    by (subst validateInputValueImpl.simps) (simp add: validate_collect validateItems_collect)
  then show ?thesis
    by (rule reportsOf_eqI)
qed

lemma reportsOf_InputObject:
  "reportsOf U v (InputObject n fds) p =
     (if isNullish v then [] else if \<not> isObjectLike v then [notObjectReport v n p]
      else reportsFields U v n fds p @ map (unknownFieldReport U v n fds p) (unknownKeys fds v))"
proof -
  have "validateInputValueImpl U v (InputObject n fds) collectReports p [] =
          Inr (if isNullish v then [] else if \<not> isObjectLike v then [notObjectReport v n p]
               else reportsFields U v n fds p
                      @ map (unknownFieldReport U v n fds p) (unknownKeys fds v))"
    by (simp add: reportInvalidValue_def collectReports_def notObjectReport_def
          validateFields_collect validateKeys_deliver deliver_collect unknownKeys_def)
  then show ?thesis
    by (rule reportsOf_eqI)
qed

lemma reportsOf_LeafT:
  "reportsOf U v (LeafT t) p = (if isNullish v then [] else leafReports v t p)"
proof (cases "parseValue t v")
  case (Inl e)
  then show ?thesis
    by (cases e)
       (simp_all add: reportsOf_def reportInvalidValue_def collectReports_def leafReports_def)
next
  case (Inr r)
  then show ?thesis
    by (simp add: reportsOf_def reportInvalidValue_def collectReports_def leafReports_def)
qed

lemma reportsItems_Nil: "reportsItems U [] T p i = []"
  by (simp add: reportsItems_def)

lemma reportsItems_Cons:
  "reportsItems U (x # xs) T p i =
     reportsOf U x T (addPath p (Index i) None) @ reportsItems U xs T p (Suc i)"
proof -
  have "validateItems U (x # xs) T collectReports p i [] =
          Inr (reportsOf U x T (addPath p (Index i) None) @ reportsItems U xs T p (Suc i))"
    by (subst validateItems.simps) (simp add: validate_collect validateItems_collect)
  then show ?thesis
    by (rule reportsItems_eqI)
qed

lemma reportsFields_Nil: "reportsFields U v n [] p = []"
  by (simp add: reportsFields_def)

lemma reportsFields_Cons:
  "reportsFields U v n (f # fds) p = fieldReports U v n p f @ reportsFields U v n fds p"
proof -
  obtain i name type d where f: "f = Field i name type d" by (cases f)
  have "validateFields U v n (Field i name type d # fds) collectReports p [] =
          Inr (fieldReports U v n p (Field i name type d) @ reportsFields U v n fds p)"
    by (subst validateFields.simps)
       (simp add: fieldReports_def validate_collect validateFields_collect
          reportInvalidValue_def collectReports_def missingFieldReport_def Let_def)
  then show ?thesis
    unfolding f by (rule reportsFields_eqI)
qed

lemma reportsFields_concat:
  "reportsFields U v n fds p = concat (map (fieldReports U v n p) fds)"
  by (induction fds) (simp_all add: reportsFields_Nil reportsFields_Cons)

lemma deliver_single: "deliver cb [r] s = cb r s"
  by (cases "cb r s") simp_all

lemma validateItems_deliver:
  assumes "\<And>x p s. validateInputValueImpl U x T cb p s = deliver cb (reportsOf U x T p) s"
  shows "validateItems U xs T cb p i s = deliver cb (reportsItems U xs T p i) s"
  by (induction xs arbitrary: i s)
     (simp_all add: reportsItems_Nil reportsItems_Cons deliver_append assms split: sum.splits)

lemma validateFields_deliver:
  assumes "\<And>f x p s. f \<in> set fds \<Longrightarrow>
             validateInputValueImpl U x (ftype f) cb p s = deliver cb (reportsOf U x (ftype f) p) s"
  shows "validateFields U v n fds cb p s = deliver cb (reportsFields U v n fds p) s"
  using assms
proof (induction fds arbitrary: s)
  case Nil
  show ?case by (simp add: reportsFields_Nil)
next
  case (Cons f fds)
  obtain i name type d where f: "f = Field i name type d" by (cases f)
  have rest: "\<And>s. validateFields U v n fds cb p s = deliver cb (reportsFields U v n fds p) s"
    using Cons by simp
  have here: "\<And>x p s. validateInputValueImpl U x type cb p s = deliver cb (reportsOf U x type p) s"
    using Cons.prems[of f] f by simp
  show ?case
    unfolding f
    by (subst validateFields.simps)
       (simp add: reportsFields_Cons fieldReports_def deliver_append rest here Let_def
          reportInvalidValue_def missingFieldReport_def deliver_single
          del: deliver.simps(2) split: sum.splits)
qed

lemma validate_deliver_all:
  fixes T :: gtype and f :: field
  shows "\<forall>v p s. validateInputValueImpl U v T cb p s = deliver cb (reportsOf U v T p) s"
    and "\<forall>v p s. validateInputValueImpl U v (ftype f) cb p s
                   = deliver cb (reportsOf U v (ftype f) p) s"
proof (induction T and f)
  case (NonNull T)
  then show ?case
    by (simp add: reportsOf_NonNull reportInvalidValue_def nonNullReport_def deliver_single
          del: deliver.simps(2))
next
  case (ListT T)
  then show ?case
    by (simp add: reportsOf_ListT validateItems_deliver)
next
  case (InputObject n fds)
  have "\<And>v p s. validateFields U v n fds cb p s = deliver cb (reportsFields U v n fds p) s"
    using validateFields_deliver[of fds U cb] InputObject by blast
  then show ?case
    by (simp add: reportsOf_InputObject reportInvalidValue_def notObjectReport_def
          validateKeys_deliver deliver_append unknownKeys_def deliver_single
          del: deliver.simps(2) split: sum.splits)
next
  case (LeafT t)
  show ?case
  proof (intro allI)
    fix v p s
    show "validateInputValueImpl U v (LeafT t) cb p s = deliver cb (reportsOf U v (LeafT t) p) s"
    proof (cases "parseValue t v")
      case (Inl e)
      then show ?thesis
        by (cases e)
           (simp_all add: reportsOf_LeafT leafReports_def reportInvalidValue_def deliver_single
              del: deliver.simps(2))
    next
      case (Inr r)
      then show ?thesis
        by (simp add: reportsOf_LeafT leafReports_def reportInvalidValue_def deliver_single
              del: deliver.simps(2))
    qed
  qed
next
  case (Field i name T d)
  then show ?case by simp
qed

lemma validateInputValueImpl_deliver:
  "validateInputValueImpl U v T cb p s = deliver cb (reportsOf U v T p) s"
  by (rule validate_deliver_all(1)[rule_format])

lemma validateInputValue_deliver:
  "validateInputValue U v T cb s = deliver cb (reportsOf U v T NoPath) s"
  by (simp add: validateInputValue_def validateInputValueImpl_deliver)









lemma coerce_unknown_key:
  assumes "isObjectLike v" and "unknownKeys fds v \<noteq> []"
  shows "fst (coerceInputValueImpl U m v (InputObject n fds)) = Undefined"
proof -
  have "\<not> list_all (\<lambda>k. fieldDef fds k \<noteq> None) (ownKeys v)"
    using assms(2) by (auto simp: unknownKeys_def list_all_iff filter_empty_conv)
  moreover have "\<not> isNullish v" using assms(1) by (cases v) simp_all
  ultimately show ?thesis
    using assms(1) by (simp split: prod.splits option.splits)
qed

subsection \<open>The keys of a coerced object\<close>

lemma update_fresh: "k \<notin> fst ` set al \<Longrightarrow> AList.update k v al = al @ [(k, v)]"
  by (induction al) auto

lemma coerceFields_keys:
  assumes "coerceFields U m v fds acc = (Some kvs, m')"
    and "distinct (map fname fds)" and "fname ` set fds \<inter> fst ` set acc = {}"
  shows "map fst kvs = map fst acc
           @ map fname (filter (\<lambda>f. getProp U v (fname f) \<noteq> Undefined \<or> fdefault f \<noteq> Undefined) fds)"
  using assms
proof (induction fds arbitrary: m acc)
  case Nil
  then show ?case by simp
next
  case (Cons f fds)
  obtain i name type d where f: "f = Field i name type d" by (cases f)
  have fresh: "name \<notin> fst ` set acc" using Cons.prems(3) f by auto
  have d: "distinct (map fname fds)" and nin: "name \<notin> fname ` set fds"
    using Cons.prems(2) f by auto
  have disj: "\<And>x. fname ` set fds \<inter> fst ` set (acc @ [(name, x)]) = {}"
    using Cons.prems(3) nin by auto
  show ?case
  proof (cases "getProp U v name \<noteq> Undefined")
    case True
    obtain c m1 where c: "coerceInputValueImpl U m (getProp U v name) type = (c, m1)"
      by (cases "coerceInputValueImpl U m (getProp U v name) type")
    with Cons.prems(1) f True have cu: "c \<noteq> Undefined"
      by (auto split: if_splits)
    with Cons.prems(1) f True c
    have "coerceFields U m1 v fds (acc @ [(name, c)]) = (Some kvs, m')"
      by (simp add: update_fresh[OF fresh])
    from Cons.IH[OF this d disj] show ?thesis using f True by simp
  next
    case False
    show ?thesis
    proof (cases "d \<noteq> Undefined")
      case True
      obtain c m1 where c: "coerceDefaultValue U m (Field i name type d) = (c, m1)"
        by (cases "coerceDefaultValue U m (Field i name type d)")
      with Cons.prems(1) f False True
      have "coerceFields U m1 v fds (acc @ [(name, c)]) = (Some kvs, m')"
        by (simp add: update_fresh[OF fresh] del: coerceDefaultValue.simps)
      from Cons.IH[OF this d disj] show ?thesis using f False True by simp
    next
      case nd: False
      with Cons.prems(1) f False
      have "coerceFields U m v fds acc = (Some kvs, m')"
        by (auto split: if_splits)
      moreover have "fname ` set fds \<inter> fst ` set acc = {}" using Cons.prems(3) by auto
      ultimately show ?thesis using Cons.IH[OF _ d] f False nd by simp
    qed
  qed
qed

lemma coerceLiteralFields_keys:
  assumes "coerceLiteralFields U m fns fds vars acc = (Some kvs, m')"
    and "distinct (map fname fds)" and "fname ` set fds \<inter> fst ` set acc = {}"
  shows "map fst kvs = map fst acc
           @ map fname (filter (\<lambda>f. suppliedNode fns (fname f) vars \<noteq> None \<or> fdefault f \<noteq> Undefined) fds)"
  using assms
proof (induction fds arbitrary: m acc)
  case Nil
  then show ?case by simp
next
  case (Cons f fds)
  obtain i name type d where f: "f = Field i name type d" by (cases f)
  have fresh: "name \<notin> fst ` set acc" using Cons.prems(3) f by auto
  have d: "distinct (map fname fds)" and nin: "name \<notin> fname ` set fds"
    using Cons.prems(2) f by auto
  have disj: "\<And>x. fname ` set fds \<inter> fst ` set (acc @ [(name, x)]) = {}"
    using Cons.prems(3) nin by auto
  show ?case
  proof (cases "suppliedNode fns name vars")
    case (Some node)
    obtain c m1 where c: "coerceInputLiteral U m node type vars = (c, m1)"
      by (cases "coerceInputLiteral U m node type vars")
    with Cons.prems(1) f Some have cu: "c \<noteq> Undefined"
      by (auto split: if_splits simp del: coerceInputLiteral.simps)
    with Cons.prems(1) f Some c
    have "coerceLiteralFields U m1 fns fds vars (acc @ [(name, c)]) = (Some kvs, m')"
      by (simp add: update_fresh[OF fresh] del: coerceInputLiteral.simps)
    from Cons.IH[OF this d disj] show ?thesis using f Some by simp
  next
    case None
    show ?thesis
    proof (cases "d \<noteq> Undefined")
      case True
      obtain c m1 where c: "coerceDefaultValue U m (Field i name type d) = (c, m1)"
        by (cases "coerceDefaultValue U m (Field i name type d)")
      with Cons.prems(1) f None True
      have "coerceLiteralFields U m1 fns fds vars (acc @ [(name, c)]) = (Some kvs, m')"
        by (simp add: update_fresh[OF fresh] del: coerceDefaultValue.simps)
      from Cons.IH[OF this d disj] show ?thesis using f None True by simp
    next
      case nd: False
      with Cons.prems(1) f None
      have "coerceLiteralFields U m fns fds vars acc = (Some kvs, m')"
        by (auto split: if_splits)
      moreover have "fname ` set fds \<inter> fst ` set acc = {}" using Cons.prems(3) by auto
      ultimately show ?thesis using Cons.IH[OF _ d] f None nd by simp
    qed
  qed
qed

lemma subseq_map_filter: "subseq (map g (filter P xs)) (map g xs)"
  by (simp add: subseq_map)

subsection \<open>The type hint and the integer syntax\<close>

lemma coerceInputValueImpl_keys:
  assumes "distinct (map fname fds)" and "\<not> isNullish v"
    and "coerceInputValueImpl U m v (InputObject n fds) = (r, m')" and "r \<noteq> Undefined"
  shows "\<exists>kvs. r = Object kvs
           \<and> map fst kvs = map fname (filter (\<lambda>f. getProp U v (fname f) \<noteq> Undefined
                                                \<or> fdefault f \<noteq> Undefined) fds)
           \<and> subseq (map fst kvs) (map fname fds)
           \<and> set (map fst kvs) \<subseteq> set (map fname fds)"
proof -
  from assms(2,3,4) obtain kvs m1 where k: "coerceFields U m v fds [] = (Some kvs, m1)"
      and r: "r = Object kvs"
    by (auto split: if_splits prod.splits option.splits)
  have keys: "map fst kvs = map fname (filter (\<lambda>f. getProp U v (fname f) \<noteq> Undefined
                                                        \<or> fdefault f \<noteq> Undefined) fds)"
    using coerceFields_keys[OF k assms(1)] by simp
  show ?thesis
  proof (intro exI conjI)
    show "r = Object kvs" by (rule r)
    show "map fst kvs = map fname (filter (\<lambda>f. getProp U v (fname f) \<noteq> Undefined
                                                        \<or> fdefault f \<noteq> Undefined) fds)"
      by (rule keys)
    show "subseq (map fst kvs) (map fname fds)"
      unfolding keys by (rule subseq_map_filter)
    show "set (map fst kvs) \<subseteq> set (map fname fds)"
      unfolding keys by auto
  qed
qed

lemma unsignedInteger_iff:
  "unsignedInteger ds = (ds \<noteq> [] \<and> list_all isDigit ds \<and> (hd ds = CHR ''0'' \<longrightarrow> ds = ''0''))"
  by (cases ds) (auto simp: isDigit_def)

lemma minus_not_digit: "\<not> isDigit CHR ''-''"
  by (simp add: isDigit_def)

lemma integerStringRegExp_iff: "integerStringRegExp s = integerSyntax s"
proof (cases s)
  case Nil
  then show ?thesis by (simp add: integerSyntax_def)
next
  case (Cons c cs)
  show ?thesis
  proof (cases "c = CHR ''-''")
    case True
    have "integerSyntax (CHR ''-'' # cs) = unsignedInteger cs"
      unfolding integerSyntax_def unsignedInteger_iff using minus_not_digit by auto
    with True Cons show ?thesis by simp
  next
    case False
    have "integerSyntax (c # cs) = unsignedInteger (c # cs)"
      unfolding integerSyntax_def unsignedInteger_iff using False by auto
    with False Cons show ?thesis by simp
  qed
qed

lemma getNamedType_idem [simp]: "getNamedType (getNamedType T) = getNamedType T"
  by (induction T rule: getNamedType.induct) simp_all

lemma astFromValue_named:
  "astFromValue S v (Some T) = astFromValue S v (Some (getNamedType T))"
  by (cases v) simp_all

lemma getNamedType_withoutNonNull:
  "getNamedType (withoutNonNull T) = withoutNonNull (getNamedType T)"
  by (induction T rule: getNamedType.induct) simp_all

lemma fname_withoutNonNullField [simp]: "fname (withoutNonNullField f) = fname f"
  by (cases f) simp

lemma ftype_withoutNonNullField [simp]: "ftype (withoutNonNullField f) = withoutNonNull (ftype f)"
  by (cases f) simp

lemma fieldDef_withoutNonNull:
  "fieldDef (map withoutNonNullField fds) k = map_option withoutNonNullField (fieldDef fds k)"
  unfolding fieldDef_def by (induction fds) simp_all

lemma fieldTypeOf_withoutNonNull:
  "fieldTypeOf (map_option (map withoutNonNullField) fdo) k
     = map_option withoutNonNull (fieldTypeOf fdo k)"
  by (cases fdo) (simp_all add: fieldTypeOf_def fieldDef_withoutNonNull option.map_comp comp_def)

lemma getNamedType_named: "getNamedType t \<noteq> NonNull x" "getNamedType t \<noteq> ListT x"
  by (induction t rule: getNamedType.induct) simp_all

lemma fieldDefsOf_withoutNonNull:
  "fieldDefsOf (map_option withoutNonNull (map_option getNamedType T))
     = map_option (map withoutNonNullField) (fieldDefsOf (map_option getNamedType T))"
proof (cases T)
  case None
  then show ?thesis by simp
next
  case (Some t)
  then show ?thesis by (cases "getNamedType t") (simp_all add: getNamedType_named)
qed

lemma isEnumType_withoutNonNull:
  "isEnumType (map_option withoutNonNull (map_option getNamedType T))
     = isEnumType (map_option getNamedType T)"
proof (cases T)
  case None
  then show ?thesis by simp
next
  case (Some t)
  then show ?thesis by (cases "getNamedType t") (simp_all add: getNamedType_named)
qed

lemma isGraphQLID_withoutNonNull:
  "isGraphQLID (map_option withoutNonNull (map_option getNamedType T))
     = isGraphQLID (map_option getNamedType T)"
proof (cases T)
  case None
  then show ?thesis by simp
next
  case (Some t)
  then show ?thesis by (cases "getNamedType t") (simp_all add: getNamedType_named)
qed

lemma named_withoutNonNull:
  "map_option getNamedType (map_option withoutNonNull T)
     = map_option withoutNonNull (map_option getNamedType T)"
  by (cases T) (simp_all add: getNamedType_withoutNonNull)

lemma astFromItems_cong:
  "(\<And>x. x \<in> set xs \<Longrightarrow> astFromValue S x T = astFromValue S x T') \<Longrightarrow>
     astFromItems S xs T = astFromItems S xs T'"
proof (induction xs)
  case Nil
  show ?case by simp
next
  case (Cons x xs)
  have h: "astFromValue S x T = astFromValue S x T'" using Cons.prems by simp
  have r: "astFromItems S xs T = astFromItems S xs T'" using Cons by simp
  show ?case unfolding astFromItems.simps h r ..
qed

lemma astFromProps_cong:
  "(\<And>k x. (k, x) \<in> set kvs \<Longrightarrow>
        astFromValue S x (fieldTypeOf fdo k) = astFromValue S x (fieldTypeOf fdo' k)) \<Longrightarrow>
     astFromProps S kvs fdo = astFromProps S kvs fdo'"
proof (induction kvs)
  case Nil
  show ?case by simp
next
  case (Cons kx kvs)
  obtain k x where kx: "kx = (k, x)" by (cases kx)
  have h: "astFromValue S x (fieldTypeOf fdo k) = astFromValue S x (fieldTypeOf fdo' k)"
    using Cons.prems kx by simp
  have r: "astFromProps S kvs fdo = astFromProps S kvs fdo'" using Cons by simp
  show ?case unfolding kx astFromProps.simps h r ..
qed

lemma astFromValue_withoutNonNull:
  "astFromValue S w T = astFromValue S w (map_option withoutNonNull T)"
proof (induction w arbitrary: T)
  case (Array xs)
  have "astFromItems S xs (map_option getNamedType T)
          = astFromItems S xs (map_option withoutNonNull (map_option getNamedType T))"
    by (rule astFromItems_cong) (rule Array)
  then show ?case by (simp add: named_withoutNonNull)
next
  case (Object kvs)
  have "astFromProps S kvs (fieldDefsOf (map_option getNamedType T))
          = astFromProps S kvs (map_option (map withoutNonNullField)
                                  (fieldDefsOf (map_option getNamedType T)))"
  proof (rule astFromProps_cong)
    fix k x
    assume kx: "(k, x) \<in> set kvs"
    have "x \<in> Basic_BNFs.snds (k, x)" by simp
    from Object[OF kx this]
    show "astFromValue S x (fieldTypeOf (fieldDefsOf (map_option getNamedType T)) k)
            = astFromValue S x (fieldTypeOf (map_option (map withoutNonNullField)
                                  (fieldDefsOf (map_option getNamedType T))) k)"
      by (simp add: fieldTypeOf_withoutNonNull)
  qed
  then show ?case by (simp add: named_withoutNonNull fieldDefsOf_withoutNonNull)
next
  case (Str s)
  show ?case
    by (simp add: named_withoutNonNull isEnumType_withoutNonNull isGraphQLID_withoutNonNull
          Let_def)
qed simp_all

subsection \<open>The store of the coerced default values\<close>

lemma unchanged_refl [simp]: "unchanged j m m"
  by (simp add: unchanged_def)

lemma unchanged_trans: "unchanged j m m1 \<Longrightarrow> unchanged j m1 m2 \<Longrightarrow> unchanged j m m2"
  by (simp add: unchanged_def)

lemma unchanged_defined: "unchanged j m m1 \<Longrightarrow> cached m j \<noteq> Undefined \<Longrightarrow> cached m1 j \<noteq> Undefined"
  by (simp add: unchanged_def)

lemma coerce_unchanged:
  shows "(j \<notin> typeIds T \<or> cached m j \<noteq> Undefined) \<Longrightarrow>
           coerceInputValueImpl U m v T = (r, m') \<Longrightarrow> unchanged j m m'"
    and "(j \<notin> typeIds T \<or> cached m j \<noteq> Undefined) \<Longrightarrow>
           coerceItems U m vs T acc = (r, m') \<Longrightarrow> unchanged j m m'"
    and "(j \<notin> (\<Union>f \<in> set fds. fieldIds f) \<or> cached m j \<noteq> Undefined) \<Longrightarrow>
           coerceFields U m v fds kacc = (ro, m') \<Longrightarrow> unchanged j m m'"
    and "(j \<notin> fieldIds f \<or> cached m j \<noteq> Undefined) \<Longrightarrow>
           coerceDefaultValue U m f = (r, m') \<Longrightarrow> unchanged j m m'"
proof (induction U m v T and U m vs T acc and U m v fds kacc and U m f
       arbitrary: r m' and r m' and ro m' and r m'
       rule: coerceInputValueImpl_coerceItems_coerceFields_coerceDefaultValue.induct)
  case (1 U m inputValue ofType)
  then show ?case by (auto split: if_splits)
next
  case (2 U m inputValue itemType)
  then show ?case by (auto split: if_splits prod.splits)
next
  case (3 U m inputValue name fieldDefs)
  then show ?case by (auto split: if_splits prod.splits option.splits)
next
  case (4 U m inputValue t)
  then show ?case by (auto split: if_splits sum.splits)
next
  case (5 U m itemType coercedValue)
  then show ?case by simp
next
  case (6 U m itemValue rest itemType coercedValue)
  obtain c m1 where c: "coerceInputValueImpl U m itemValue itemType = (c, m1)"
    by (cases "coerceInputValueImpl U m itemValue itemType")
  have u1: "unchanged j m m1" using 6(1)[OF 6(3) c] .
  show ?case
  proof (cases "c = Undefined")
    case True
    with 6(4) c u1 show ?thesis by simp
  next
    case False
    with 6(4) c have r: "coerceItems U m1 rest itemType (coercedValue @ [c]) = (r, m')" by simp
    have "j \<notin> typeIds itemType \<or> cached m1 j \<noteq> Undefined"
      using 6(3) u1 by (auto simp: unchanged_def)
    from 6(2)[OF c[symmetric] False this r] u1 show ?thesis by (rule unchanged_trans[rotated])
  qed
next
  case (7 U m inputValue coercedValue)
  then show ?case by simp
next
  case (8 U m inputValue i name type defaultValue rest coercedValue)
  let ?f = "Field i name type defaultValue"
  have jrest: "\<And>m1. unchanged j m m1 \<Longrightarrow>
                 j \<notin> (\<Union>f \<in> set rest. fieldIds f) \<or> cached m1 j \<noteq> Undefined"
    using 8(6) by (auto simp: unchanged_def)
  have jt: "j \<notin> typeIds type \<or> cached m j \<noteq> Undefined" using 8(6) by auto
  have jf: "j \<notin> fieldIds ?f \<or> cached m j \<noteq> Undefined" using 8(6) by auto
  show ?case
  proof (cases "getProp U inputValue name \<noteq> Undefined")
    case True
    obtain c m1 where c: "coerceInputValueImpl U m (getProp U inputValue name) type = (c, m1)"
      by (cases "coerceInputValueImpl U m (getProp U inputValue name) type")
    have u1: "unchanged j m m1" using 8(1)[OF refl True jt c] .
    show ?thesis
    proof (cases "c = Undefined")
      case cu: True
      with 8(7) True c u1 show ?thesis by simp
    next
      case False
      with 8(7) True c
      have r: "coerceFields U m1 inputValue rest (AList.update name c coercedValue) = (ro, m')"
        by simp
      from 8(2)[OF refl True c[symmetric] False jrest[OF u1] r] u1
      show ?thesis by (rule unchanged_trans[rotated])
    qed
  next
    case nv: False
    show ?thesis
    proof (cases "defaultValue \<noteq> Undefined")
      case True
      obtain c m1 where c: "coerceDefaultValue U m ?f = (c, m1)"
        by (cases "coerceDefaultValue U m ?f")
      have u1: "unchanged j m m1" using 8(3)[OF refl nv True jf c] .
      from 8(7) nv True c
      have r: "coerceFields U m1 inputValue rest (AList.update name c coercedValue) = (ro, m')"
        by (simp del: coerceDefaultValue.simps)
      from 8(4)[OF refl nv True c[symmetric] jrest[OF u1] r] u1
      show ?thesis by (rule unchanged_trans[rotated])
    next
      case nd: False
      show ?thesis
      proof (cases "isNonNullType type")
        case True
        with 8(7) nv nd show ?thesis by simp
      next
        case False
        with 8(7) nv nd have r: "coerceFields U m inputValue rest coercedValue = (ro, m')"
          by simp
        from 8(5)[OF refl nv nd False jrest[OF unchanged_refl] r] show ?thesis .
      qed
    qed
  qed
next
  case (9 U m i name type defaultValue)
  show ?case
  proof (cases "cached m i = Undefined")
    case True
    obtain c m1 where c: "coerceInputValueImpl U m defaultValue type = (c, m1)"
      by (cases "coerceInputValueImpl U m defaultValue type")
    have ji: "j \<noteq> i" using 9(2) True by auto
    have jt: "j \<notin> typeIds type \<or> cached m j \<noteq> Undefined" using 9(2) by auto
    have u1: "unchanged j m m1" using 9(1)[OF refl True jt c] .
    have "m' = m1\<lparr>cached := (cached m1)(i := c), written := written m1 @ [i]\<rparr>"
      using 9(3) True c by auto
    then show ?thesis using u1 ji by (simp add: unchanged_def)
  next
    case False
    with 9(3) show ?thesis by simp
  qed
qed

lemma coerceLiteral_unchanged:
  shows "cached m j \<noteq> Undefined \<Longrightarrow>
           coerceInputLiteral U m node T vars = (r, m') \<Longrightarrow> unchanged j m m'"
    and "cached m j \<noteq> Undefined \<Longrightarrow>
           coerceLiteralOfType U m node T vars = (r, m') \<Longrightarrow> unchanged j m m'"
    and "cached m j \<noteq> Undefined \<Longrightarrow>
           coerceLiteralItems U m nodes T vars acc = (r, m') \<Longrightarrow> unchanged j m m'"
    and "cached m j \<noteq> Undefined \<Longrightarrow>
           coerceLiteralFields U m fns fds vars kacc = (ro, m') \<Longrightarrow> unchanged j m m'"
proof (induction U m node T vars and U m node T vars and U m nodes T vars acc and U m fns fds vars kacc
       arbitrary: r m' and r m' and r m' and ro m'
       rule: coerceInputLiteral_coerceLiteralOfType_coerceLiteralItems_coerceLiteralFields.induct)
  case (1 U m valueNode type variables)
  show ?case
  proof (cases "variableName valueNode")
    case None
    with 1(3) have "coerceLiteralOfType U m valueNode type variables = (r, m')" by simp
    from 1(1)[OF None 1(2) this] show ?thesis .
  next
    case (Some name)
    with 1(3) have "m' = m" by (auto simp: Let_def split: option.splits if_splits)
    then show ?thesis by simp
  qed
next
  case (2 U m valueNode ofType variables)
  then show ?case by (auto split: if_splits simp del: coerceInputLiteral.simps)
next
  case (3 U m valueNode itemType variables)
  show ?case
  proof (cases "valueNode = NullValue")
    case True
    with 3(4) show ?thesis by simp
  next
    case nn: False
    show ?thesis
    proof (cases "listValues valueNode")
      case (Some vals)
      with 3(4) nn have "coerceLiteralItems U m vals itemType variables [] = (r, m')" by simp
      from 3(2)[OF nn Some 3(3) this] show ?thesis .
    next
      case None
      obtain c m1 where c: "coerceInputLiteral U m valueNode itemType variables = (c, m1)"
        by (cases "coerceInputLiteral U m valueNode itemType variables")
      have u1: "unchanged j m m1" using 3(1)[OF nn None 3(3) c] .
      have "m' = m1" using 3(4) nn None c
        by (auto split: if_splits simp del: coerceInputLiteral.simps)
      with u1 show ?thesis by simp
    qed
  qed
next
  case (4 U m valueNode name fieldDefs variables)
  show ?case
  proof (cases "valueNode = NullValue")
    case True
    with 4(3) show ?thesis by simp
  next
    case nn: False
    show ?thesis
    proof (cases "objectFields valueNode")
      case None
      with 4(3) nn show ?thesis by simp
    next
      case (Some fieldNodes)
      obtain ro m1 where c: "coerceLiteralFields U m (keyMap fieldNodes) fieldDefs variables [] = (ro, m1)"
        by (cases "coerceLiteralFields U m (keyMap fieldNodes) fieldDefs variables []")
      have u1: "unchanged j m m1" using 4(1)[OF nn Some 4(2) c] .
      have "m' = m1" using 4(3) nn Some c by (auto split: option.splits)
      with u1 show ?thesis by simp
    qed
  qed
next
  case (5 U m valueNode t variables)
  then show ?case by (auto split: if_splits sum.splits)
next
  case (6 U m itemType variables coercedValue)
  then show ?case by simp
next
  case (7 U m itemNode rest itemType variables coercedValue)
  obtain c m1 where c: "coerceInputLiteral U m itemNode itemType variables = (c, m1)"
    by (cases "coerceInputLiteral U m itemNode itemType variables")
  have u1: "unchanged j m m1" using 7(1)[OF 7(4) c] .
  have d1: "cached m1 j \<noteq> Undefined" using unchanged_defined[OF u1 7(4)] .
  show ?case
  proof (cases "c = Undefined")
    case True
    show ?thesis
    proof (cases "isMissingVariable itemNode variables \<and> \<not> isNonNullType itemType")
      case mv: True
      with 7(5) c True
      have r: "coerceLiteralItems U m1 rest itemType variables (coercedValue @ [Null]) = (r, m')"
        by (simp del: coerceInputLiteral.simps)
      from 7(2)[OF c[symmetric] True mv d1 r] u1 show ?thesis by (rule unchanged_trans[rotated])
    next
      case False
      with 7(5) c True have "m' = m1" by (auto simp del: coerceInputLiteral.simps)
      with u1 show ?thesis by simp
    qed
  next
    case False
    with 7(5) c
    have r: "coerceLiteralItems U m1 rest itemType variables (coercedValue @ [c]) = (r, m')"
      by (simp del: coerceInputLiteral.simps)
    from 7(3)[OF c[symmetric] False d1 r] u1 show ?thesis by (rule unchanged_trans[rotated])
  qed
next
  case (8 U m fieldNodes variables coercedValue)
  then show ?case by simp
next
  case (9 U m fieldNodes i name type defaultValue rest variables coercedValue)
  let ?f = "Field i name type defaultValue"
  show ?case
  proof (cases "suppliedNode fieldNodes name variables")
    case (Some valueNode)
    obtain c m1 where c: "coerceInputLiteral U m valueNode type variables = (c, m1)"
      by (cases "coerceInputLiteral U m valueNode type variables")
    have u1: "unchanged j m m1" using 9(3)[OF Some 9(5) c] .
    have d1: "cached m1 j \<noteq> Undefined" using unchanged_defined[OF u1 9(5)] .
    show ?thesis
    proof (cases "c = Undefined")
      case True
      with 9(6) Some c have "m' = m1" by (simp del: coerceInputLiteral.simps)
      with u1 show ?thesis by simp
    next
      case False
      with 9(6) Some c
      have r: "coerceLiteralFields U m1 fieldNodes rest variables
                 (AList.update name c coercedValue) = (ro, m')"
        by (simp del: coerceInputLiteral.simps)
      from 9(4)[OF Some c[symmetric] False d1 r] u1 show ?thesis
        by (rule unchanged_trans[rotated])
    qed
  next
    case None
    show ?thesis
    proof (cases "defaultValue \<noteq> Undefined")
      case True
      obtain c m1 where c: "coerceDefaultValue U m ?f = (c, m1)"
        by (cases "coerceDefaultValue U m ?f")
      have u1: "unchanged j m m1" using coerce_unchanged(4)[OF disjI2[OF 9(5)] c] .
      have d1: "cached m1 j \<noteq> Undefined" using unchanged_defined[OF u1 9(5)] .
      from 9(6) None True c
      have r: "coerceLiteralFields U m1 fieldNodes rest variables
                 (AList.update name c coercedValue) = (ro, m')"
        by (simp del: coerceDefaultValue.simps)
      from 9(1)[OF None True c[symmetric] d1 r] u1 show ?thesis
        by (rule unchanged_trans[rotated])
    next
      case nd: False
      show ?thesis
      proof (cases "isNonNullType type")
        case True
        with 9(6) None nd show ?thesis by simp
      next
        case False
        with 9(6) None nd
        have r: "coerceLiteralFields U m fieldNodes rest variables coercedValue = (ro, m')"
          by simp
        from 9(2)[OF None nd False 9(5) r] show ?thesis .
      qed
    qed
  qed
qed

subsection \<open>From a value to its literal and back\<close>

lemma canonical_defined: "canonical S vars v T \<Longrightarrow> v \<noteq> Undefined"
  by (induction T) auto

lemma astFromValue_not_variable:
  "astFromValue S v T = Inr node \<Longrightarrow> variableName node = None"
  by (cases v) (auto simp: Let_def split: sum.splits jsnum.splits if_splits)

lemma coerceLiteralOfType_null:
  "coerceLiteralOfType U m NullValue T vars = (if isNonNullType T then Undefined else Null, m)"
  by (cases T) simp_all

lemma astFromValue_NonNull:
  "astFromValue S v (Some (NonNull T)) = astFromValue S v (Some T)"
  by (cases v) simp_all

lemma isMissingVariable_literal: "variableName node = None \<Longrightarrow> \<not> isMissingVariable node vars"
  by (cases node) simp_all

lemma roundtrip_items:
  assumes "\<And>x m. canonical S vars x T \<Longrightarrow>
             \<exists>node. astFromValue S x (Some T) = Inr node \<and> coerceInputLiteral U m node T vars = (x, m)"
    and "list_all (\<lambda>x. canonical S vars x T) xs"
  shows "\<exists>nodes. astFromItems S xs (Some (getNamedType T)) = Inr nodes
           \<and> (\<forall>acc. coerceLiteralItems U m nodes T vars acc = (Array (acc @ xs), m))"
  using assms(2)
proof (induction xs)
  case Nil
  then show ?case by simp
next
  case (Cons x xs)
  then have cx: "canonical S vars x T" and cxs: "list_all (\<lambda>x. canonical S vars x T) xs"
    by simp_all
  obtain node where n1: "astFromValue S x (Some T) = Inr node"
      and n2: "coerceInputLiteral U m node T vars = (x, m)"
    using assms(1)[OF cx] by blast
  obtain nodes where ns1: "astFromItems S xs (Some (getNamedType T)) = Inr nodes"
      and ns2: "\<And>acc. coerceLiteralItems U m nodes T vars acc = (Array (acc @ xs), m)"
    using Cons.IH[OF cxs] by blast
  have n1': "astFromValue S x (Some (getNamedType T)) = Inr node"
    using n1 astFromValue_named by simp
  have xd: "x \<noteq> Undefined" using canonical_defined[OF cx] .
  have "astFromItems S (x # xs) (Some (getNamedType T)) = Inr (node # nodes)"
    using n1' ns1 by simp
  moreover have "\<forall>acc. coerceLiteralItems U m (node # nodes) T vars acc = (Array (acc @ x # xs), m)"
    using n2 xd ns2 by (simp del: coerceInputLiteral.simps)
  ultimately show ?case by blast
qed

lemma canonicalFields_keys:
  "canonicalFields S vars kvs fds \<Longrightarrow> fst ` set kvs \<subseteq> fname ` set fds"
proof (induction fds arbitrary: kvs)
  case Nil
  then show ?case by simp
next
  case (Cons f fds)
  obtain i name type d where f: "f = Field i name type d" by (cases f)
  show ?case
  proof (cases kvs)
    case Nil
    then show ?thesis by simp
  next
    case (Cons kx kvs')
    obtain k x where kx: "kx = (k, x)" by (cases kx)
    show ?thesis
    proof (cases "k = name")
      case True
      with Cons.prems f Cons kx have "canonicalFields S vars kvs' fds" by simp
      from Cons.IH[OF this] show ?thesis using Cons kx True f by auto
    next
      case False
      with Cons.prems f Cons kx have "canonicalFields S vars kvs fds" by simp
      from Cons.IH[OF this] show ?thesis by auto
    qed
  qed
qed

lemma canonicalFields_distinct:
  "canonicalFields S vars kvs fds \<Longrightarrow> distinct (map fname fds) \<Longrightarrow> distinct (map fst kvs)"
proof (induction fds arbitrary: kvs)
  case Nil
  then show ?case by simp
next
  case (Cons f fds)
  obtain i name type d where f: "f = Field i name type d" by (cases f)
  have d: "distinct (map fname fds)" and nin: "name \<notin> fname ` set fds"
    using Cons.prems(2) f by auto
  show ?case
  proof (cases kvs)
    case Nil
    then show ?thesis by simp
  next
    case (Cons kx kvs')
    obtain k x where kx: "kx = (k, x)" by (cases kx)
    show ?thesis
    proof (cases "k = name")
      case True
      with Cons.prems(1) f Cons kx have c: "canonicalFields S vars kvs' fds" by simp
      have "name \<notin> fst ` set kvs'" using canonicalFields_keys[OF c] nin by auto
      with Cons.IH[OF c d] show ?thesis using Cons kx True by simp
    next
      case False
      with Cons.prems(1) f Cons kx have "canonicalFields S vars kvs fds" by simp
      from Cons.IH[OF this d] show ?thesis .
    qed
  qed
qed

lemma fieldDef_distinct:
  "distinct (map fname fds) \<Longrightarrow> f \<in> set fds \<Longrightarrow> fieldDef fds (fname f) = Some f"
  unfolding fieldDef_def by (induction fds) auto

lemma fname_inj:
  "distinct (map fname fds) \<Longrightarrow> f \<in> set fds \<Longrightarrow> g \<in> set fds \<Longrightarrow> fname f = fname g \<Longrightarrow> f = g"
  by (meson distinct_map inj_onD)

lemma roundtrip_props:
  assumes ih: "\<And>f x m. f \<in> set fds \<Longrightarrow> canonical S vars x (ftype f) \<Longrightarrow>
             \<exists>node. astFromValue S x (Some (ftype f)) = Inr node
                    \<and> coerceInputLiteral U m node (ftype f) vars = (x, m)"
    and d: "distinct (map fname fds)"
  shows "canonicalFields S vars kvs sub \<Longrightarrow> set sub \<subseteq> set fds \<Longrightarrow>
         \<exists>nodes. astFromProps S kvs (Some fds) = Inr nodes \<and> list_all2 (nodeFor U vars fds) kvs nodes"
proof (induction sub arbitrary: kvs)
  case Nil
  then show ?case by simp
next
  case (Cons f sub)
  obtain i name type dv where f: "f = Field i name type dv" by (cases f)
  have fin: "f \<in> set fds" and sub: "set sub \<subseteq> set fds" using Cons.prems(2) by auto
  show ?case
  proof (cases kvs)
    case Nil
    then show ?thesis by simp
  next
    case kvs: (Cons kx kvs')
    obtain k x where kx: "kx = (k, x)" by (cases kx)
    show ?thesis
    proof (cases "k = name")
      case True
      with Cons.prems(1) f kvs kx
      have cx: "canonical S vars x type" and cr: "canonicalFields S vars kvs' sub" by simp_all
      obtain nodes where ns: "astFromProps S kvs' (Some fds) = Inr nodes"
          and l2: "list_all2 (nodeFor U vars fds) kvs' nodes"
        using Cons.IH[OF cr sub] by blast
      have ft: "ftype f = type" "fname f = name" using f by simp_all
      obtain node where n1: "astFromValue S x (Some type) = Inr node"
        using ih[OF fin, of x] cx ft by auto
      have n2: "\<And>m. coerceInputLiteral U m node type vars = (x, m)"
      proof -
        fix m
        obtain node' where "astFromValue S x (Some type) = Inr node'"
            and "coerceInputLiteral U m node' type vars = (x, m)"
          using ih[OF fin, of x m] cx ft by auto
        with n1 show "coerceInputLiteral U m node type vars = (x, m)" by simp
      qed
      have hint: "fieldTypeOf (Some fds) k = Some type"
        using fieldDef_distinct[OF d fin] ft True by (simp add: fieldTypeOf_def)
      have "astFromProps S kvs (Some fds) = Inr ((k, node) # nodes)"
        using kvs kx hint n1 ns by simp
      moreover have "nodeFor U vars fds (k, x) (k, node)"
      proof -
        have "\<forall>g \<in> set fds. fname g = k \<longrightarrow>
                (\<forall>m. coerceInputLiteral U m node (ftype g) vars = (x, m))"
        proof (intro ballI impI allI)
          fix g m
          assume g: "g \<in> set fds" and gk: "fname g = k"
          have "f = g" using fname_inj[OF d fin g] gk True ft by simp
          then show "coerceInputLiteral U m node (ftype g) vars = (x, m)"
            using n2 ft by (simp del: coerceInputLiteral.simps)
        qed
        then show ?thesis
          unfolding nodeFor_def
          using astFromValue_not_variable[OF n1] canonical_defined[OF cx]
          by (simp del: coerceInputLiteral.simps)
      qed
      ultimately show ?thesis using l2 kvs kx by simp
    next
      case False
      with Cons.prems(1) f kvs kx have "canonicalFields S vars kvs sub" by simp
      from Cons.IH[OF this sub] show ?thesis .
    qed
  qed
qed

lemma roundtrip_fields:
  assumes "canonicalFields S vars kvs sub" and "distinct (map fname sub)"
    and "\<And>k x. (k, x) \<in> set kvs \<Longrightarrow>
           \<exists>nd. fm k = Some nd \<and> variableName nd = None \<and> x \<noteq> Undefined
                \<and> (\<forall>f \<in> set sub. fname f = k \<longrightarrow>
                      (\<forall>m. coerceInputLiteral U m nd (ftype f) vars = (x, m)))"
    and "\<And>f. f \<in> set sub \<Longrightarrow> fname f \<notin> fst ` set kvs \<Longrightarrow> fm (fname f) = None"
    and "fname ` set sub \<inter> fst ` set acc = {}"
  shows "coerceLiteralFields U m fm sub vars acc = (Some (acc @ kvs), m)"
  using assms
proof (induction sub arbitrary: kvs acc)
  case Nil
  then show ?case by simp
next
  case (Cons f sub)
  obtain i name type dv where f: "f = Field i name type dv" by (cases f)
  have d: "distinct (map fname sub)" and nin: "name \<notin> fname ` set sub"
    using Cons.prems(2) f by auto
  have fresh: "name \<notin> fst ` set acc" using Cons.prems(5) f by auto
  have weaken: "\<exists>nd. fm k = Some nd \<and> variableName nd = None \<and> x \<noteq> Undefined
                \<and> (\<forall>g \<in> set sub. fname g = k \<longrightarrow>
                      (\<forall>m. coerceInputLiteral U m nd (ftype g) vars = (x, m)))"
    if w: "\<exists>nd. fm k = Some nd \<and> variableName nd = None \<and> x \<noteq> Undefined
                \<and> (\<forall>g \<in> set (f # sub). fname g = k \<longrightarrow>
                      (\<forall>m. coerceInputLiteral U m nd (ftype g) vars = (x, m)))" for k x
  proof -
    from w obtain nd where nd: "fm k = Some nd" "variableName nd = None" "x \<noteq> Undefined"
        and all: "\<forall>g \<in> set (f # sub). fname g = k \<longrightarrow>
                      (\<forall>m. coerceInputLiteral U m nd (ftype g) vars = (x, m))"
      by blast
    from all have "\<forall>g \<in> set sub. fname g = k \<longrightarrow>
                      (\<forall>m. coerceInputLiteral U m nd (ftype g) vars = (x, m))"
      by (simp del: coerceInputLiteral.simps)
    with nd show ?thesis by blast
  qed
  have absent_skip: "coerceLiteralFields U m fm (f # sub) vars acc = (Some (acc @ kvs), m)"
    if nk: "name \<notin> fst ` set kvs" and c: "canonicalFields S vars kvs sub"
      and dn: "dv = Undefined" "\<not> isNonNullType type"
  proof -
    have none: "fm name = None" using Cons.prems(4)[of f] f nk by simp
    have a: "\<And>k x. (k, x) \<in> set kvs \<Longrightarrow>
           \<exists>nd. fm k = Some nd \<and> variableName nd = None \<and> x \<noteq> Undefined
                \<and> (\<forall>f \<in> set sub. fname f = k \<longrightarrow>
                      (\<forall>m. coerceInputLiteral U m nd (ftype f) vars = (x, m)))"
      by (rule weaken[OF Cons.prems(3)])
    have b: "\<And>g. g \<in> set sub \<Longrightarrow> fname g \<notin> fst ` set kvs \<Longrightarrow> fm (fname g) = None"
      using Cons.prems(4) by simp
    have e: "fname ` set sub \<inter> fst ` set acc = {}" using Cons.prems(5) by auto
    have "coerceLiteralFields U m fm sub vars acc = (Some (acc @ kvs), m)"
      using Cons.IH[OF c d a b e] .
    then show ?thesis using f none dn by (simp add: suppliedNode_def)
  qed
  show ?case
  proof (cases kvs)
    case Nil
    with Cons.prems(1) f
    have "dv = Undefined" "\<not> isNonNullType type" "canonicalFields S vars kvs sub" by simp_all
    then show ?thesis using absent_skip Nil by simp
  next
    case kvs: (Cons kx kvs')
    obtain k x where kx: "kx = (k, x)" by (cases kx)
    show ?thesis
    proof (cases "k = name")
      case True
      with Cons.prems(1) f kvs kx
      have cr: "canonicalFields S vars kvs' sub" by simp
      have "(k, x) \<in> set kvs" using kvs kx by simp
      from Cons.prems(3)[OF this]
      obtain nd where nd: "fm k = Some nd" "variableName nd = None" "x \<noteq> Undefined"
          and all: "\<forall>g \<in> set (f # sub). fname g = k \<longrightarrow>
                      (\<forall>m. coerceInputLiteral U m nd (ftype g) vars = (x, m))"
        by blast
      have co: "\<And>m. coerceInputLiteral U m nd type vars = (x, m)"
        using all True f by (simp del: coerceInputLiteral.simps)
      have nd1: "fm name = Some nd" using nd(1) True by simp
      have sup: "suppliedNode fm name vars = Some nd"
        using nd1 nd(2) isMissingVariable_literal by (simp add: suppliedNode_def)
      have nk': "name \<notin> fst ` set kvs'"
        using canonicalFields_keys[OF cr] nin by auto
      have a: "\<And>k x. (k, x) \<in> set kvs' \<Longrightarrow>
           \<exists>nd. fm k = Some nd \<and> variableName nd = None \<and> x \<noteq> Undefined
                \<and> (\<forall>f \<in> set sub. fname f = k \<longrightarrow>
                      (\<forall>m. coerceInputLiteral U m nd (ftype f) vars = (x, m)))"
      proof -
        fix k' x' assume "(k', x') \<in> set kvs'"
        then have "(k', x') \<in> set kvs" using kvs by simp
        from weaken[OF Cons.prems(3)[OF this]]
        show "\<exists>nd. fm k' = Some nd \<and> variableName nd = None \<and> x' \<noteq> Undefined
                \<and> (\<forall>f \<in> set sub. fname f = k' \<longrightarrow>
                      (\<forall>m. coerceInputLiteral U m nd (ftype f) vars = (x', m)))" .
      qed
      have b: "\<And>g. g \<in> set sub \<Longrightarrow> fname g \<notin> fst ` set kvs' \<Longrightarrow> fm (fname g) = None"
      proof -
        fix g assume g: "g \<in> set sub" and "fname g \<notin> fst ` set kvs'"
        moreover have "fname g \<noteq> name" using g nin by auto
        ultimately have "fname g \<notin> fst ` set kvs" using kvs kx True by auto
        with Cons.prems(4)[of g] g show "fm (fname g) = None" by simp
      qed
      have e: "fname ` set sub \<inter> fst ` set (acc @ [(name, x)]) = {}"
        using Cons.prems(5) nin by auto
      have "coerceLiteralFields U m fm sub vars (acc @ [(name, x)]) = (Some ((acc @ [(name, x)]) @ kvs'), m)"
        using Cons.IH[OF cr d a b e] .
      then show ?thesis
        using f sup co nd(3) kvs kx True
        by (simp add: update_fresh[OF fresh] del: coerceInputLiteral.simps)
    next
      case False
      with Cons.prems(1) f kvs kx
      have c: "canonicalFields S vars kvs sub" and dn: "dv = Undefined" "\<not> isNonNullType type"
        by simp_all
      have "name \<notin> fst ` set kvs" using canonicalFields_keys[OF c] nin by auto
      from absent_skip[OF this c dn] show ?thesis .
    qed
  qed
qed

lemma roundtrip_object:
  assumes ih: "\<And>f x m. f \<in> set fds \<Longrightarrow> canonical S vars x (ftype f) \<Longrightarrow>
             \<exists>node. astFromValue S x (Some (ftype f)) = Inr node
                    \<and> coerceInputLiteral U m node (ftype f) vars = (x, m)"
    and d: "distinct (map fname fds)" and c: "canonicalFields S vars kvs fds"
  shows "\<exists>node. astFromValue S (Object kvs) (Some (InputObject n fds)) = Inr node
           \<and> coerceInputLiteral U m node (InputObject n fds) vars = (Object kvs, m)"
proof -
  obtain nodes where ns: "astFromProps S kvs (Some fds) = Inr nodes"
      and l2: "list_all2 (nodeFor U vars fds) kvs nodes"
    using roundtrip_props[OF ih d c] by blast
  have keys: "map fst nodes = map fst kvs"
    using l2 by (induction kvs nodes rule: list_all2_induct) (auto simp: nodeFor_def)
  have dk: "distinct (map fst kvs)" using canonicalFields_distinct[OF c d] .
  have dn: "distinct (map fst nodes)" using dk keys by simp
  have "distinct (map fst (rev nodes))" using dn by (metis distinct_rev rev_map)
  then have km: "keyMap nodes = map_of nodes"
    unfolding keyMap_def using dn by (simp add: map_of_inject_set)
  have look: "\<exists>nd. keyMap nodes k = Some nd \<and> variableName nd = None \<and> x \<noteq> Undefined
                \<and> (\<forall>f \<in> set fds. fname f = k \<longrightarrow>
                      (\<forall>m. coerceInputLiteral U m nd (ftype f) vars = (x, m)))"
    if kx: "(k, x) \<in> set kvs" for k x
  proof -
    from kx obtain j where j: "j < length kvs" "kvs ! j = (k, x)"
      by (auto simp: in_set_conv_nth)
    have len: "length nodes = length kvs" using l2 by (simp add: list_all2_lengthD)
    have nf: "nodeFor U vars fds (kvs ! j) (nodes ! j)"
      using l2 j(1) by (simp add: list_all2_nthD)
    obtain k' nd where kn: "nodes ! j = (k', nd)" by (cases "nodes ! j")
    have k': "k' = k" using nf kn j(2) by (simp add: nodeFor_def)
    have "(k, nd) \<in> set nodes" using kn k' j(1) len by (metis nth_mem)
    then have "map_of nodes k = Some nd" using dn by simp
    moreover have "variableName nd = None" "x \<noteq> Undefined"
      "\<forall>f \<in> set fds. fname f = k \<longrightarrow> (\<forall>m. coerceInputLiteral U m nd (ftype f) vars = (x, m))"
      using nf kn j(2) by (simp_all add: nodeFor_def del: coerceInputLiteral.simps)
    ultimately show ?thesis using km by simp
  qed
  have absent: "keyMap nodes (fname f) = None" if "fname f \<notin> fst ` set kvs" for f
  proof -
    have "fname f \<notin> fst ` set nodes" using that keys by (metis set_map)
    then show ?thesis using km by (simp add: map_of_eq_None_iff)
  qed
  have "coerceLiteralFields U m (keyMap nodes) fds vars [] = (Some ([] @ kvs), m)"
    by (rule roundtrip_fields[OF c d look absent]) simp_all
  then have "coerceInputLiteral U m (ObjectValue nodes) (InputObject n fds) vars = (Object kvs, m)"
    by simp
  moreover have "astFromValue S (Object kvs) (Some (InputObject n fds)) = Inr (ObjectValue nodes)"
    using ns by simp
  ultimately show ?thesis by blast
qed

lemma roundtrip_all:
  fixes T :: gtype and f :: field
  shows "\<forall>v m. canonical S vars v T \<longrightarrow>
           (\<exists>node. astFromValue S v (Some T) = Inr node
                  \<and> coerceInputLiteral U m node T vars = (v, m))"
    and "\<forall>v m. canonical S vars v (ftype f) \<longrightarrow>
           (\<exists>node. astFromValue S v (Some (ftype f)) = Inr node
                  \<and> coerceInputLiteral U m node (ftype f) vars = (v, m))"
proof (induction T and f)
  case (NonNull T)
  show ?case
  proof (intro allI impI)
    fix v m
    assume c: "canonical S vars v (NonNull T)"
    then have nn: "\<not> isNullish v" and cT: "canonical S vars v T" by simp_all
    obtain node where n1: "astFromValue S v (Some T) = Inr node"
        and n2: "coerceInputLiteral U m node T vars = (v, m)"
      using NonNull cT by blast
    have nv: "variableName node = None" using astFromValue_not_variable[OF n1] .
    have "node \<noteq> NullValue"
    proof
      assume "node = NullValue"
      with n2 have "v = Null \<or> v = Undefined"
        by (simp add: coerceLiteralOfType_null split: if_splits)
      with nn show False by auto
    qed
    then have "coerceInputLiteral U m node (NonNull T) vars = (v, m)"
      using nv n2 by simp
    then show "\<exists>node. astFromValue S v (Some (NonNull T)) = Inr node
                 \<and> coerceInputLiteral U m node (NonNull T) vars = (v, m)"
      using n1 astFromValue_NonNull by (metis (no_types))
  qed
next
  case (ListT T)
  show ?case
  proof (intro allI impI)
    fix v m
    assume c: "canonical S vars v (ListT T)"
    show "\<exists>node. astFromValue S v (Some (ListT T)) = Inr node
            \<and> coerceInputLiteral U m node (ListT T) vars = (v, m)"
    proof (cases v)
      case Null
      then show ?thesis by simp
    next
      case (Array xs)
      with c have all: "list_all (\<lambda>x. canonical S vars x T) xs" by simp
      have ih: "\<And>x m. canonical S vars x T \<Longrightarrow>
             \<exists>node. astFromValue S x (Some T) = Inr node \<and> coerceInputLiteral U m node T vars = (x, m)"
        using ListT by blast
      obtain nodes where ns1: "astFromItems S xs (Some (getNamedType T)) = Inr nodes"
          and ns2: "\<And>acc. coerceLiteralItems U m nodes T vars acc = (Array (acc @ xs), m)"
        using roundtrip_items[OF ih all] by blast
      have "astFromValue S v (Some (ListT T)) = Inr (ListValue nodes)"
        using Array ns1 by simp
      moreover have "coerceInputLiteral U m (ListValue nodes) (ListT T) vars = (v, m)"
        using Array ns2[of "[]"] by simp
      ultimately show ?thesis by blast
    qed (use c in simp_all)
  qed
next
  case (InputObject n fds)
  show ?case
  proof (intro allI impI)
    fix v m
    assume c: "canonical S vars v (InputObject n fds)"
    show "\<exists>node. astFromValue S v (Some (InputObject n fds)) = Inr node
            \<and> coerceInputLiteral U m node (InputObject n fds) vars = (v, m)"
    proof (cases v)
      case Null
      then show ?thesis by simp
    next
      case (Object kvs)
      with c have d: "distinct (map fname fds)" and cf: "canonicalFields S vars kvs fds"
        by simp_all
      have ih: "\<And>f x m. f \<in> set fds \<Longrightarrow> canonical S vars x (ftype f) \<Longrightarrow>
             \<exists>node. astFromValue S x (Some (ftype f)) = Inr node
                    \<and> coerceInputLiteral U m node (ftype f) vars = (x, m)"
        using InputObject by blast
      from roundtrip_object[OF ih d cf] show ?thesis using Object by simp
    qed (use c in simp_all)
  qed
next
  case (LeafT t)
  show ?case
  proof (intro allI impI)
    fix v m
    assume c: "canonical S vars v (LeafT t)"
    show "\<exists>node. astFromValue S v (Some (LeafT t)) = Inr node
            \<and> coerceInputLiteral U m node (LeafT t) vars = (v, m)"
    proof (cases "v = Null")
      case True
      then show ?thesis by simp
    next
      case False
      with c obtain node where n1: "astFromValue S v (Some (LeafT t)) = Inr node"
          and n2: "node \<noteq> NullValue" and n3: "parseLiteral t node vars = Inr v"
        by (cases v) (auto split: sum.splits)
      have "variableName node = None" using astFromValue_not_variable[OF n1] .
      then have "coerceInputLiteral U m node (LeafT t) vars = (v, m)"
        using n2 n3 by simp
      with n1 show ?thesis by blast
    qed
  qed
next
  case (Field i name T d)
  then show ?case by simp
qed

section \<open>The claims\<close>



text \<open>
  C2 (as amended). A value is in the coerced form of a type when it is \<^verbatim>\<open>null\<close> and the
  type is not Non-Null, or: for a list type, a sequence of values in the coerced form of
  the item type; for an input-object type (with distinct field names), a mapping that
  holds, in declared order, declared fields with values in the coerced form of their
  types, every field it lacks having no default and not a Non-Null type; for a leaf type,
  a value whose reconstructed literal is not the null literal and is parsed back to the
  value by \<^verbatim>\<open>parseLiteral\<close> of the leaf type. For every value in the coerced form of its
  type, \<^verbatim>\<open>astFromValue\<close> yields a node, and \<^verbatim>\<open>coerceInputLiteral\<close> of that node yields
  the value, and leaves the store as it is.
\<close>

theorem astFromValue_roundtrip:
  assumes "canonical S vars v T"
  shows "\<exists>node. astFromValue S v (Some T) = Inr node
           \<and> coerceInputLiteral U m node T vars = (v, m)"
  using roundtrip_all(1) assms by blast

theorem astFromValue_roundtrip_witness:
  "astFromValue exampleString
     (Array [Object [(''a'', Boolean True), (''b'', Str ''HELLO'')], Null,
             Object [(''a'', Boolean False)]])
     (Some (ListT (InputObject ''T'' twoFields)))
   = Inr (ListValue [ObjectValue [(''a'', BooleanValue True), (''b'', EnumValue ''HELLO'')],
                     NullValue, ObjectValue [(''a'', BooleanValue False)]])
   \<and> coerceInputLiteral exampleUtils emptyMemo
       (ListValue [ObjectValue [(''a'', BooleanValue True), (''b'', EnumValue ''HELLO'')],
                   NullValue, ObjectValue [(''a'', BooleanValue False)]])
       (ListT (InputObject ''T'' twoFields)) None
     = (Array [Object [(''a'', Boolean True), (''b'', Str ''HELLO'')], Null,
               Object [(''a'', Boolean False)]], emptyMemo)"
proof -
  have c: "canonical exampleString None
             (Array [Object [(''a'', Boolean True), (''b'', Str ''HELLO'')], Null,
                     Object [(''a'', Boolean False)]])
             (ListT (InputObject ''T'' twoFields))"
    by (simp add: twoFields_def GraphQLBoolean_def myEnum_def myEnumValue_def
          isNameStart_def isDigit_def)
  have a: "astFromValue exampleString
     (Array [Object [(''a'', Boolean True), (''b'', Str ''HELLO'')], Null,
             Object [(''a'', Boolean False)]])
     (Some (ListT (InputObject ''T'' twoFields)))
   = Inr (ListValue [ObjectValue [(''a'', BooleanValue True), (''b'', EnumValue ''HELLO'')],
                     NullValue, ObjectValue [(''a'', BooleanValue False)]])"
    by (simp add: twoFields_def GraphQLBoolean_def myEnum_def fieldTypeOf_def fieldDef_def
          isNameStart_def isDigit_def)
  from astFromValue_roundtrip[OF c, where m = emptyMemo and U = exampleUtils] a show ?thesis
    by (auto simp del: coerceInputLiteral.simps)
qed

theorem astFromValue_roundtrip_counterexample:
  "coerceInputValueImpl exampleUtils emptyMemo (Str ''COMPLEX'') (LeafT myEnum) = (complexValue, emptyMemo)
   \<and> astFromValue exampleString complexValue (Some (LeafT myEnum))
       = Inr (ObjectValue [(''someArbitrary'', StringValue ''complexValue'')])
   \<and> coerceInputLiteral exampleUtils emptyMemo (ObjectValue [(''someArbitrary'', StringValue ''complexValue'')])
       (LeafT myEnum) None
       = (Undefined, emptyMemo)
   \<and> astFromValue exampleString (Str ''COMPLEX'') (Some (LeafT myEnum))
       = Inr (EnumValue ''COMPLEX'')
   \<and> coerceInputLiteral exampleUtils emptyMemo (EnumValue ''COMPLEX'') (LeafT myEnum) None
       = (complexValue, emptyMemo)
   \<and> complexValue \<noteq> Str ''COMPLEX''"
  by (simp add: myEnum_def myEnumValue_def complexValue_def fieldTypeOf_def
        isNameStart_def isDigit_def)

text \<open>
  C3. For an object-like input that has a key which the input-object type does not
  declare, the coercion yields \<^verbatim>\<open>undefined\<close>, and the validation reports, after the
  reports of the declared fields, exactly one "is not defined by type" error for each
  such key, in key order, with the text that \<^verbatim>\<open>didYouMean\<close> makes of the suggestions
  that \<^verbatim>\<open>suggestionList\<close> computes from the key and the declared field names.
\<close>

theorem unknown_keys_rejected:
  assumes "isObjectLike v" and "\<exists>k \<in> set (ownKeys v). fieldDef fds k = None"
  shows "fst (coerceInputValueImpl U m v (InputObject n fds)) = Undefined
       \<and> validateInputValue U v (InputObject n fds) onError s =
           deliver onError
             (reportsFields U v n fds NoPath
                @ map (unknownFieldReport U v n fds NoPath)
                    (filter (\<lambda>k. fieldDef fds k = None) (ownKeys v))) s
       \<and> coerceInputValue U m v (InputObject n fds) (Some onError) s =
           (case validateInputValue U v (InputObject n fds) onError s of
              Inl e \<Rightarrow> Inl e
            | Inr s' \<Rightarrow> Inr (Undefined, snd (coerceInputValueImpl U m v (InputObject n fds)), s'))"
proof -
  have nn: "\<not> isNullish v" using assms(1) by (cases v) simp_all
  have unk: "unknownKeys fds v \<noteq> []"
    using assms(2) by (auto simp: unknownKeys_def filter_empty_conv)
  have c: "fst (coerceInputValueImpl U m v (InputObject n fds)) = Undefined"
    using coerce_unknown_key[OF assms(1) unk] .
  obtain c' m' where eq: "coerceInputValueImpl U m v (InputObject n fds) = (c', m')"
    by (cases "coerceInputValueImpl U m v (InputObject n fds)")
  with c have c': "c' = Undefined" by simp
  have "coerceInputValue U m v (InputObject n fds) (Some onError) s =
           (case validateInputValue U v (InputObject n fds) onError s of
              Inl e \<Rightarrow> Inl e
            | Inr s' \<Rightarrow> Inr (Undefined, snd (coerceInputValueImpl U m v (InputObject n fds)), s'))"
    unfolding coerceInputValue_def eq c' snd_conv by simp
  moreover have "validateInputValue U v (InputObject n fds) onError s =
           deliver onError
             (reportsFields U v n fds NoPath
                @ map (unknownFieldReport U v n fds NoPath)
                    (filter (\<lambda>k. fieldDef fds k = None) (ownKeys v))) s"
    using nn assms(1)
    by (simp add: validateInputValue_deliver reportsOf_InputObject unknownKeys_def)
  ultimately show ?thesis using c by blast
qed

theorem unknown_keys_rejected_witness:
  "fst (coerceInputValueImpl exampleUtils emptyMemo (Object [(''y'', Null), (''a'', Null), (''z'', Null)])
          (InputObject ''T'' oneOptional)) = Undefined
   \<and> validateInputValue exampleUtils (Object [(''y'', Null), (''a'', Null), (''z'', Null)])
        (InputObject ''T'' oneOptional) collectReports []
      = Inr [unknownFieldReport exampleUtils (Object [(''y'', Null), (''a'', Null), (''z'', Null)])
               ''T'' oneOptional NoPath ''y'',
             unknownFieldReport exampleUtils (Object [(''y'', Null), (''a'', Null), (''z'', Null)])
               ''T'' oneOptional NoPath ''z'']"
  using unknown_keys_rejected[where v = "Object [(''y'', Null), (''a'', Null), (''z'', Null)]"
      and fds = oneOptional and n = "''T''" and m = emptyMemo and U = exampleUtils
      and onError = collectReports and s = "[]"]
  by (simp add: oneOptional_def fieldDef_def collectReports_def reportsFields_Cons
        reportsFields_Nil fieldReports_def reportsOf_LeafT isRequiredInputField_def)

text \<open>
  C4. Against Non-Null(T), a \<^verbatim>\<open>null\<close> or \<^verbatim>\<open>undefined\<close> input is coerced to
  \<^verbatim>\<open>undefined\<close>; the validation calls the callback once, with the "not to be null"
  error, and does not look at T; a null literal is coerced to \<^verbatim>\<open>undefined\<close>; and
  \<^verbatim>\<open>astFromValue\<close> gives for every value the node it gives with the hint T, and
  more generally, for every hint, the node it gives for the hint without any of its
  Non-Null wrappers.
\<close>

theorem nonNull_rejects_null:
  assumes "isNullish v"
  shows "coerceInputValueImpl U m v (NonNull T) = (Undefined, m)
       \<and> validateInputValue U v (NonNull T) onError s = onError (nonNullReport U v T NoPath) s
       \<and> validateInputValueImpl U v (NonNull T) onError p s = onError (nonNullReport U v T p) s
       \<and> coerceInputValue U m v (NonNull T) (Some onError) s =
           (case onError (nonNullReport U v T NoPath) s of
              Inl e \<Rightarrow> Inl e
            | Inr s' \<Rightarrow> Inr (Undefined, m, s'))
       \<and> coerceInputLiteral U m NullValue (NonNull T) variables = (Undefined, m)
       \<and> astFromValue S w (Some (NonNull T)) = astFromValue S w (Some T)
       \<and> astFromValue S w (Some T') = astFromValue S w (Some (withoutNonNull T'))"
proof -
  have "astFromValue S w (Some (NonNull T)) = astFromValue S w (Some T)"
    by (cases w) simp_all
  moreover have "astFromValue S w (Some T') = astFromValue S w (Some (withoutNonNull T'))"
    using astFromValue_withoutNonNull[of S w "Some T'"] by simp
  ultimately show ?thesis
    using assms
    by (simp add: validateInputValue_def reportInvalidValue_def coerceInputValue_def
          nonNullReport_def)
qed

theorem nonNull_rejects_null_witness:
  "coerceInputValueImpl exampleUtils emptyMemo Null (NonNull (LeafT GraphQLBoolean)) = (Undefined, emptyMemo)
   \<and> validateInputValue exampleUtils Null (NonNull (LeafT GraphQLBoolean)) collectReports []
       = Inr [nonNullReport exampleUtils Null (LeafT GraphQLBoolean) NoPath]
   \<and> coerceInputLiteral exampleUtils emptyMemo NullValue (NonNull (LeafT GraphQLBoolean)) None
       = (Undefined, emptyMemo)
   \<and> astFromValue exampleString Null (Some (NonNull (LeafT GraphQLBoolean))) = Inr NullValue"
  using nonNull_rejects_null[where v = Null and m = emptyMemo and T = "LeafT GraphQLBoolean"
      and U = exampleUtils and onError = collectReports and s = "[]" and variables = None
      and S = exampleString and w = Null and T' = "ListT (NonNull (LeafT GraphQLBoolean))"]
  by (simp add: collectReports_def)







text \<open>
  C7 (as amended). For a value \<open>x\<close> that is neither \<^verbatim>\<open>null\<close> or \<^verbatim>\<open>undefined\<close> nor
  iterable, coercing \<open>x\<close> against List(T) gives the one-element sequence of the coercion
  of \<open>x\<close> against T, and \<^verbatim>\<open>undefined\<close> when that coercion yields \<^verbatim>\<open>undefined\<close>; the
  entry point reports and returns accordingly. \<^verbatim>\<open>coerceInputLiteral\<close> promotes in the
  same way a node that is neither a list node, nor the null node, nor a variable node.
\<close>

theorem list_promotion:
  assumes "\<not> isNullish x" and "\<not> isIterableObject x"
    and "node \<noteq> NullValue" and "variableName node = None" and "listValues node = None"
  shows "coerceInputValueImpl U m x (ListT T) =
           (case coerceInputValueImpl U m x T of
              (c, m') \<Rightarrow> (if c = Undefined then Undefined else Array [c], m'))
       \<and> coerceInputValue U m x (ListT T) onError s =
           (case coerceInputValue U m x T onError s of
              Inl e \<Rightarrow> Inl e
            | Inr (c, m', s') \<Rightarrow> Inr (if c = Undefined then Undefined else Array [c], m', s'))
       \<and> coerceInputLiteral U m node (ListT T) variables =
           (case coerceInputLiteral U m node T variables of
              (c, m') \<Rightarrow> (if c = Undefined then Undefined else Array [c], m'))"
proof -
  obtain c m' where eq: "coerceInputValueImpl U m x T = (c, m')"
    by (cases "coerceInputValueImpl U m x T")
  have v: "coerceInputValueImpl U m x (ListT T) =
             (if c = Undefined then Undefined else Array [c], m')"
    using assms(1,2) eq by simp
  have val: "\<And>cb. validateInputValue U x (ListT T) cb s = validateInputValue U x T cb s"
    using assms(1,2) by (simp add: validateInputValue_def)
  have top: "coerceInputValue U m x (ListT T) onError s =
           (case coerceInputValue U m x T onError s of
              Inl e \<Rightarrow> Inl e
            | Inr (c, m', s') \<Rightarrow> Inr (if c = Undefined then Undefined else Array [c], m', s'))"
    unfolding coerceInputValue_def v eq
    by (simp add: val split: sum.splits)
  have lit: "coerceInputLiteral U m node (ListT T) variables =
           (case coerceInputLiteral U m node T variables of
              (c, m') \<Rightarrow> (if c = Undefined then Undefined else Array [c], m'))"
    using assms(3,4,5) by (auto split: prod.splits)
  show ?thesis using v eq top lit by simp
qed

theorem list_promotion_witness:
  "coerceInputValueImpl exampleUtils emptyMemo (Boolean True) (ListT (LeafT GraphQLBoolean))
     = (Array [Boolean True], emptyMemo)
   \<and> coerceInputValueImpl exampleUtils emptyMemo (Str ''x'') (ListT (LeafT GraphQLBoolean))
     = (Undefined, emptyMemo)
   \<and> coerceInputLiteral exampleUtils emptyMemo (BooleanValue True) (ListT (LeafT GraphQLBoolean)) None
     = (Array [Boolean True], emptyMemo)"
  using list_promotion[where x = "Boolean True" and node = "BooleanValue True"
      and m = emptyMemo and T = "LeafT GraphQLBoolean" and variables = None]
    list_promotion[where x = "Str ''x''" and node = "BooleanValue True"
      and m = emptyMemo and T = "LeafT GraphQLBoolean" and variables = None]
  by (simp add: GraphQLBoolean_def)

theorem list_promotion_counterexample:
  "coerceInputLiteral exampleUtils emptyMemo (Variable ''x'') (LeafT GraphQLBoolean) (Some variablesTrue)
     = (Boolean True, emptyMemo)
   \<and> coerceInputLiteral exampleUtils emptyMemo (Variable ''x'') (ListT (LeafT GraphQLBoolean))
       (Some variablesTrue)
     = (Boolean True, emptyMemo)
   \<and> coerceInputLiteral exampleUtils emptyMemo NullValue (LeafT GraphQLBoolean) None = (Null, emptyMemo)
   \<and> coerceInputLiteral exampleUtils emptyMemo NullValue (ListT (LeafT GraphQLBoolean)) None
     = (Null, emptyMemo)"
  by (simp add: variablesTrue_def getVar_def)

text \<open>
  C8. For a finite number, \<^verbatim>\<open>astFromValue\<close> yields an integer node with the string of
  the number when that string has integer syntax, and a float node with that string
  otherwise; for \<^verbatim>\<open>NaN\<close> and the two infinities it yields a null node; it does not
  throw. The regular expression of the source accepts exactly the strings of integer
  syntax.
\<close>

theorem astFromValue_number:
  "astFromValue S (Number (Finite r)) T =
     Inr (if integerSyntax (S r) then IntValue (S r) else FloatValue (S r))
   \<and> astFromValue S (Number NaN) T = Inr NullValue
   \<and> astFromValue S (Number PosInfinity) T = Inr NullValue
   \<and> astFromValue S (Number NegInfinity) T = Inr NullValue
   \<and> integerStringRegExp s = integerSyntax s"
  by (simp add: integerStringRegExp_iff Let_def)

theorem astFromValue_number_witness:
  "astFromValue exampleString (Number (Finite 3)) None = Inr (IntValue ''3'')
   \<and> astFromValue exampleString (Number (Finite 123.5)) None = Inr (FloatValue ''123.5'')
   \<and> astFromValue exampleString (Number NaN) (Some (LeafT GraphQLBoolean)) = Inr NullValue"
proof -
  note a = astFromValue_number[where S = exampleString and r = 3 and T = None and s = "''3''"]
  note b = astFromValue_number[where S = exampleString and r = "123.5" and T = None
      and s = "''123.5''"]
  note c = astFromValue_number[where S = exampleString and r = 3
      and T = "Some (LeafT GraphQLBoolean)" and s = "''3''"]
  have e3: "exampleString 3 = ''3''" and e1: "exampleString 123.5 = ''123.5''"
    by (simp_all add: exampleString_def)
  have "integerStringRegExp ''3''" and "\<not> integerStringRegExp ''123.5''"
    by (simp_all add: isDigit_def)
  then have i3: "integerSyntax ''3''" and i1: "\<not> integerSyntax ''123.5''"
    using a b by blast+
  have "astFromValue exampleString (Number (Finite 3)) None = Inr (IntValue ''3'')"
    using a i3 unfolding e3 by (simp only: if_True)
  moreover have "astFromValue exampleString (Number (Finite 123.5)) None
                   = Inr (FloatValue ''123.5'')"
    using b i1 unfolding e1 by (simp only: if_False)
  moreover have "astFromValue exampleString (Number NaN) (Some (LeafT GraphQLBoolean))
                   = Inr NullValue"
    using c by blast
  ultimately show ?thesis by blast
qed

text \<open>
  C9 (as amended). For a field descriptor whose default value coerces to a value other
  than \<^verbatim>\<open>undefined\<close>: the first call of \<^verbatim>\<open>coerceDefaultValue\<close> stores that value on the
  descriptor, with exactly one assignment to it; whenever the descriptor holds that value,
  \<^verbatim>\<open>coerceDefaultValue\<close> returns it and leaves the store as it is, without looking at
  the type or the default value; and no later coercion of a value or of a literal
  changes what the descriptor holds or assigns to it again.
\<close>

theorem coerceDefaultValue_memo:
  assumes "fid f \<notin> typeIds (ftype f)" and "cached m (fid f) = Undefined"
    and "coerceDefaultValue U m f = (v, m1)" and "v \<noteq> Undefined"
  shows "cached m1 (fid f) = v
       \<and> count_list (written m1) (fid f) = Suc (count_list (written m) (fid f))
       \<and> (\<forall>m2 f'. fid f' = fid f \<and> cached m2 (fid f) = v
             \<longrightarrow> coerceDefaultValue U m2 f' = (v, m2))
       \<and> (\<forall>m2 x T r m3. cached m2 (fid f) = v \<and> coerceInputValueImpl U m2 x T = (r, m3)
             \<longrightarrow> unchanged (fid f) m2 m3)
       \<and> (\<forall>m2 node T vars r m3. cached m2 (fid f) = v \<and> coerceInputLiteral U m2 node T vars = (r, m3)
             \<longrightarrow> unchanged (fid f) m2 m3)"
proof -
  obtain i n t d where f: "f = Field i n t d" by (cases f)
  obtain c m' where c: "coerceInputValueImpl U m d t = (c, m')"
    by (cases "coerceInputValueImpl U m d t")
  have it: "i \<notin> typeIds t" and ci: "cached m i = Undefined" using assms(1,2) f by simp_all
  have res: "v = c" "m1 = m'\<lparr>cached := (cached m')(i := c), written := written m' @ [i]\<rparr>"
    using assms(3) f ci c by auto
  have u: "unchanged i m m'" using coerce_unchanged(1)[OF disjI1[OF it] c] .
  have a: "cached m1 (fid f) = v" using res f by simp
  have b: "count_list (written m1) (fid f) = Suc (count_list (written m) (fid f))"
    using res f u by (simp add: unchanged_def)
  have k: "\<forall>m2 f'. fid f' = fid f \<and> cached m2 (fid f) = v
             \<longrightarrow> coerceDefaultValue U m2 f' = (v, m2)"
  proof (intro allI impI)
    fix m2 :: memo and f' :: field
    assume h: "fid f' = fid f \<and> cached m2 (fid f) = v"
    obtain i' n' t' d' where f': "f' = Field i' n' t' d'" by (cases f')
    with h assms(4) show "coerceDefaultValue U m2 f' = (v, m2)" by simp
  qed
  have l: "\<forall>m2 x T r m3. cached m2 (fid f) = v \<and> coerceInputValueImpl U m2 x T = (r, m3)
             \<longrightarrow> unchanged (fid f) m2 m3"
    using coerce_unchanged(1) assms(4) by blast
  have l': "\<forall>m2 node T vars r m3. cached m2 (fid f) = v \<and> coerceInputLiteral U m2 node T vars = (r, m3)
             \<longrightarrow> unchanged (fid f) m2 m3"
    using coerceLiteral_unchanged(1) assms(4) by blast
  show ?thesis using a b k l l' by blast
qed

theorem coerceDefaultValue_memo_witness:
  "fst (coerceDefaultValue exampleUtils emptyMemo validDefault) = Boolean True
   \<and> written (snd (coerceDefaultValue exampleUtils emptyMemo validDefault)) = [0]
   \<and> coerceDefaultValue exampleUtils (snd (coerceDefaultValue exampleUtils emptyMemo validDefault)) validDefault
       = (Boolean True, snd (coerceDefaultValue exampleUtils emptyMemo validDefault))"
proof -
  have e: "coerceDefaultValue exampleUtils emptyMemo validDefault
             = (Boolean True, snd (coerceDefaultValue exampleUtils emptyMemo validDefault))"
    by (simp add: emptyMemo_def validDefault_def GraphQLBoolean_def)
  have w: "written (snd (coerceDefaultValue exampleUtils emptyMemo validDefault)) = [0]"
    by (simp add: emptyMemo_def validDefault_def GraphQLBoolean_def)
  have e1: "fst (coerceDefaultValue exampleUtils emptyMemo validDefault) = Boolean True"
    by (simp add: emptyMemo_def validDefault_def GraphQLBoolean_def)
  have "cached (snd (coerceDefaultValue exampleUtils emptyMemo validDefault)) (fid validDefault) = Boolean True
       \<and> (\<forall>m2 f'. fid f' = fid validDefault \<and> cached m2 (fid validDefault) = Boolean True
             \<longrightarrow> coerceDefaultValue exampleUtils m2 f' = (Boolean True, m2))"
    using coerceDefaultValue_memo[where f = validDefault and m = emptyMemo
        and v = "Boolean True" and ?m1.0 = "snd (coerceDefaultValue exampleUtils emptyMemo validDefault)", OF _ _ e]
    by (simp add: emptyMemo_def validDefault_def)
  then have "coerceDefaultValue exampleUtils (snd (coerceDefaultValue exampleUtils emptyMemo validDefault)) validDefault
       = (Boolean True, snd (coerceDefaultValue exampleUtils emptyMemo validDefault))"
    by blast
  with e1 w show ?thesis by blast
qed

theorem coerceDefaultValue_memo_counterexample:
  "fdefault invalidDefault \<noteq> Undefined
   \<and> fst (coerceDefaultValue exampleUtils emptyMemo invalidDefault) = Undefined
   \<and> written (snd (coerceDefaultValue exampleUtils emptyMemo invalidDefault)) = [0]
   \<and> fst (coerceDefaultValue exampleUtils (snd (coerceDefaultValue exampleUtils emptyMemo invalidDefault)) invalidDefault)
       = Undefined
   \<and> written (snd (coerceDefaultValue exampleUtils (snd (coerceDefaultValue exampleUtils emptyMemo invalidDefault))
                 invalidDefault)) = [0, 0]"
  by (simp add: emptyMemo_def invalidDefault_def)

text \<open>
  C10 (as amended). For an input-object type with its field names distinct: when the
  coercion of a value other than \<^verbatim>\<open>null\<close> and \<^verbatim>\<open>undefined\<close>, or of a literal node other
  than the null node and a variable node, succeeds, the result is a mapping whose keys
  are the names of the declared fields that the input supplies (for a value: whose read
  gives a value other than \<^verbatim>\<open>undefined\<close>) or that have a default, in declared order; so
  every key is a declared field name. The same holds of a variable node when the value
  read for the variable is one that the coercion of such a value against the type has
  yielded, which is what the code takes a variable's value to be: the value is returned
  as it is, and its keys are those that the coercion gave it.
\<close>

theorem object_keys_declared_order:
  assumes "distinct (map fname fds)"
  shows "(\<not> isNullish v \<and> coerceInputValueImpl U m v (InputObject n fds) = (r, m') \<and> r \<noteq> Undefined
            \<longrightarrow> (\<exists>kvs. r = Object kvs
                   \<and> map fst kvs = map fname (filter (\<lambda>f. getProp U v (fname f) \<noteq> Undefined
                                                        \<or> fdefault f \<noteq> Undefined) fds)
                   \<and> subseq (map fst kvs) (map fname fds)
                   \<and> set (map fst kvs) \<subseteq> set (map fname fds)))
       \<and> (variableName node = None \<and> node \<noteq> NullValue
            \<and> coerceInputLiteral U m node (InputObject n fds) vars = (r, m') \<and> r \<noteq> Undefined
            \<longrightarrow> (\<exists>kvs fns. node = ObjectValue fns \<and> r = Object kvs
                   \<and> map fst kvs = map fname (filter (\<lambda>f. suppliedNode (keyMap fns) (fname f) vars \<noteq> None
                                                        \<or> fdefault f \<noteq> Undefined) fds)
                   \<and> subseq (map fst kvs) (map fname fds)
                   \<and> set (map fst kvs) \<subseteq> set (map fname fds)))
       \<and> (\<not> isNullish w \<and> coerceInputValueImpl U m0 w (InputObject n fds) = (c, m0')
            \<and> c \<noteq> Undefined \<and> getVar vs x = c
            \<longrightarrow> coerceInputLiteral U m (Variable x) (InputObject n fds) (Some vs) = (c, m)
                \<and> (\<exists>kvs. c = Object kvs
                   \<and> map fst kvs = map fname (filter (\<lambda>f. getProp U w (fname f) \<noteq> Undefined
                                                        \<or> fdefault f \<noteq> Undefined) fds)
                   \<and> subseq (map fst kvs) (map fname fds)
                   \<and> set (map fst kvs) \<subseteq> set (map fname fds)))"
proof (intro conjI impI)
  assume a: "\<not> isNullish v \<and> coerceInputValueImpl U m v (InputObject n fds) = (r, m') \<and> r \<noteq> Undefined"
  then show "\<exists>kvs. r = Object kvs
                   \<and> map fst kvs = map fname (filter (\<lambda>f. getProp U v (fname f) \<noteq> Undefined
                                                        \<or> fdefault f \<noteq> Undefined) fds)
                   \<and> subseq (map fst kvs) (map fname fds)
                   \<and> set (map fst kvs) \<subseteq> set (map fname fds)"
    using coerceInputValueImpl_keys[OF assms, of v U m n r m'] by blast
next
  assume a: "variableName node = None \<and> node \<noteq> NullValue
            \<and> coerceInputLiteral U m node (InputObject n fds) vars = (r, m') \<and> r \<noteq> Undefined"
  then obtain fns where fns: "node = ObjectValue fns"
    by (cases node) (auto split: if_splits)
  with a obtain kvs m1 where k: "coerceLiteralFields U m (keyMap fns) fds vars [] = (Some kvs, m1)"
      and r: "r = Object kvs"
    by (auto split: if_splits prod.splits option.splits)
  have keys: "map fst kvs = map fname (filter (\<lambda>f. suppliedNode (keyMap fns) (fname f) vars \<noteq> None
                                                        \<or> fdefault f \<noteq> Undefined) fds)"
    using coerceLiteralFields_keys[OF k assms] by simp
  show "\<exists>kvs fns. node = ObjectValue fns \<and> r = Object kvs
                   \<and> map fst kvs = map fname (filter (\<lambda>f. suppliedNode (keyMap fns) (fname f) vars \<noteq> None
                                                        \<or> fdefault f \<noteq> Undefined) fds)
                   \<and> subseq (map fst kvs) (map fname fds)
                   \<and> set (map fst kvs) \<subseteq> set (map fname fds)"
  proof (intro exI conjI)
    show "node = ObjectValue fns" by (rule fns)
    show "r = Object kvs" by (rule r)
    show "map fst kvs = map fname (filter (\<lambda>f. suppliedNode (keyMap fns) (fname f) vars \<noteq> None
                                                        \<or> fdefault f \<noteq> Undefined) fds)"
      by (rule keys)
    show "subseq (map fst kvs) (map fname fds)"
      unfolding keys by (rule subseq_map_filter)
    show "set (map fst kvs) \<subseteq> set (map fname fds)"
      unfolding keys by auto
  qed
next
  assume a: "\<not> isNullish w \<and> coerceInputValueImpl U m0 w (InputObject n fds) = (c, m0')
            \<and> c \<noteq> Undefined \<and> getVar vs x = c"
  then have k: "\<exists>kvs. c = Object kvs
                   \<and> map fst kvs = map fname (filter (\<lambda>f. getProp U w (fname f) \<noteq> Undefined
                                                        \<or> fdefault f \<noteq> Undefined) fds)
                   \<and> subseq (map fst kvs) (map fname fds)
                   \<and> set (map fst kvs) \<subseteq> set (map fname fds)"
    using coerceInputValueImpl_keys[OF assms, of w U m0 n c m0'] by blast
  then obtain kvs where c: "c = Object kvs" by blast
  with a have g: "getVar vs x = Object kvs" by simp
  show "coerceInputLiteral U m (Variable x) (InputObject n fds) (Some vs) = (c, m)"
    by (simp add: g c)
  show "\<exists>kvs. c = Object kvs
                   \<and> map fst kvs = map fname (filter (\<lambda>f. getProp U w (fname f) \<noteq> Undefined
                                                        \<or> fdefault f \<noteq> Undefined) fds)
                   \<and> subseq (map fst kvs) (map fname fds)
                   \<and> set (map fst kvs) \<subseteq> set (map fname fds)"
    by (rule k)
qed

theorem object_keys_declared_order_witness:
  "coerceInputValueImpl exampleUtils emptyMemo (Object [(''a'', Boolean True)])
     (InputObject ''T'' oneOptional)
     = (Object [(''a'', Boolean True)], emptyMemo)
   \<and> coerceInputLiteral exampleUtils emptyMemo (ObjectValue [(''a'', BooleanValue True)])
       (InputObject ''T'' oneOptional) None
     = (Object [(''a'', Boolean True)], emptyMemo)
   \<and> coerceInputLiteral exampleUtils emptyMemo (Variable ''x'') (InputObject ''T'' oneOptional)
       (Some variablesCoerced)
     = (Object [(''a'', Boolean True)], emptyMemo)
   \<and> map fname oneOptional = [''a'']"
  using object_keys_declared_order[where fds = oneOptional and v = "Object [(''a'', Boolean True)]"
      and U = exampleUtils
      and m = emptyMemo and n = "''T''" and r = "Object [(''a'', Boolean True)]"
      and m' = emptyMemo and node = "ObjectValue [(''a'', BooleanValue True)]" and vars = None
      and w = "Object [(''a'', Boolean True)]" and ?m0.0 = emptyMemo and ?m0' = emptyMemo
      and c = "Object [(''a'', Boolean True)]" and vs = variablesCoerced and x = "''x''"]
  by (simp add: oneOptional_def GraphQLBoolean_def fieldDef_def keyMap_def suppliedNode_def
        variablesCoerced_def getVar_def)

theorem object_keys_counterexample:
  "coerceInputLiteral exampleUtils emptyMemo (Variable ''x'') (InputObject ''T'' oneOptional)
     (Some variablesObject)
     = (Object [(''zzz'', Boolean True)], emptyMemo)
   \<and> ''zzz'' \<notin> set (map fname oneOptional)"
  by (simp add: variablesObject_def getVar_def oneOptional_def)

end
